theory Spec2Isabelle
  imports Main "HOL-Library.Word"
begin

section \<open>Status codes\<close>

text \<open>
  \<^verbatim>\<open>media_status_t\<close> of the NDK. The five error codes that \<^verbatim>\<open>MediaTranscoder.cpp\<close>
  names are constructors of their own; every other error code a collaborator may hand
  back is \<open>AMEDIA_ERROR_OTHER n\<close>.
\<close>

datatype media_status_t =
    AMEDIA_OK
  | AMEDIA_ERROR_UNKNOWN
  | AMEDIA_ERROR_MALFORMED
  | AMEDIA_ERROR_UNSUPPORTED
  | AMEDIA_ERROR_INVALID_PARAMETER
  | AMEDIA_ERROR_INVALID_OPERATION
  | AMEDIA_ERROR_OTHER nat

section \<open>Format descriptors\<close>

text \<open>
  The keys that \<^verbatim>\<open>mergeMediaFormats\<close> names, and \<open>OTHER_KEY\<close> for every other key string
  of a format.
\<close>

datatype format_key =
    AMEDIAFORMAT_KEY_MIME
  | AMEDIAFORMAT_KEY_DURATION
  | AMEDIAFORMAT_KEY_WIDTH
  | AMEDIAFORMAT_KEY_HEIGHT
  | AMEDIAFORMAT_KEY_BIT_RATE
  | AMEDIAFORMAT_KEY_PROFILE
  | AMEDIAFORMAT_KEY_LEVEL
  | AMEDIAFORMAT_KEY_COLOR_FORMAT
  | AMEDIAFORMAT_KEY_COLOR_RANGE
  | AMEDIAFORMAT_KEY_COLOR_STANDARD
  | AMEDIAFORMAT_KEY_COLOR_TRANSFER
  | AMEDIAFORMAT_KEY_FRAME_RATE
  | AMEDIAFORMAT_KEY_I_FRAME_INTERVAL
  | AMEDIAFORMAT_KEY_PRIORITY
  | AMEDIAFORMAT_KEY_OPERATING_RATE
  | OTHER_KEY string

text \<open>
  The value types that the table of \<^verbatim>\<open>mergeMediaFormats\<close> names (second argument of
  \<^verbatim>\<open>ENTRY_COPIER\<close>), and the values of a format. The code stores, copies and coerces
  floats and never computes with them, and the spec names the coercion of a float to an
  integer without defining it: a float is kept as its 32-bit pattern together with the
  32-bit integer that the coercion gives for it.
\<close>

datatype entry_type = String_t | Int32_t | Int64_t | Float_t

datatype float = Float (bits: "32 word") (as_int32: "32 word")

datatype format_value =
    StringValue string
  | Int32Value "32 word"
  | Int64Value "64 word"
  | FloatValue float

fun value_type :: "format_value \<Rightarrow> entry_type" where
  "value_type (StringValue _) = String_t"
| "value_type (Int32Value _) = Int32_t"
| "value_type (Int64Value _) = Int64_t"
| "value_type (FloatValue _) = Float_t"

type_synonym AMediaFormat = "format_key \<rightharpoonup> format_value"

subsection \<open>The store of format objects\<close>

text \<open>
  An \<^verbatim>\<open>AMediaFormat*\<close> is an address into a store of format objects, or \<open>None\<close> for
  \<^verbatim>\<open>nullptr\<close>. The store is a list: the address of an object is its position,
  \<^verbatim>\<open>AMediaFormat_new\<close> appends, and a deleted object leaves \<open>None\<close> in its cell, so an
  address is never handed out twice.
\<close>

type_synonym format_store = "AMediaFormat option list"

definition deref :: "format_store \<Rightarrow> nat \<Rightarrow> AMediaFormat option" where
  "deref h a = (if a < length h then h ! a else None)"

text \<open>
  Modelled from the spec: the format descriptor's accessors (\<^verbatim>\<open>AMediaFormat_new\<close>,
  \<^verbatim>\<open>AMediaFormat_delete\<close>, \<^verbatim>\<open>AMediaFormat_copy\<close>, the typed getters and setters) are
  declared in the NDK and are not part of \<^verbatim>\<open>MediaTranscoder.cpp\<close>. A descriptor is a typed
  key/value record; a typed getter answers only for a key that is present with a value of
  the getter's type; a copy replaces the destination's entries by the source's. An
  address that holds no live object reads as absent, and copying from or to it fails.
\<close>

definition AMediaFormat_new :: "format_store \<Rightarrow> format_store \<times> nat" where
  "AMediaFormat_new h = (h @ [Some Map.empty], length h)"

definition AMediaFormat_delete :: "format_store \<Rightarrow> nat \<Rightarrow> format_store" where
  "AMediaFormat_delete h a = (if a < length h then h[a := None] else h)"

definition AMediaFormat_copy :: "format_store \<Rightarrow> nat \<Rightarrow> nat \<Rightarrow> format_store \<times> media_status_t" where
  "AMediaFormat_copy h to from =
     (case deref h to of
        None \<Rightarrow> (h, AMEDIA_ERROR_INVALID_PARAMETER)
      | Some _ \<Rightarrow>
          (case deref h from of
             None \<Rightarrow> (h, AMEDIA_ERROR_INVALID_PARAMETER)
           | Some f \<Rightarrow> (h[to := Some f], AMEDIA_OK)))"

definition typed_get :: "entry_type \<Rightarrow> AMediaFormat \<Rightarrow> format_key \<Rightarrow> format_value option" where
  "typed_get ty f k =
     (case f k of
        None \<Rightarrow> None
      | Some v \<Rightarrow> if value_type v = ty then Some v else None)"

definition AMediaFormat_get :: "entry_type \<Rightarrow> format_store \<Rightarrow> nat \<Rightarrow> format_key \<Rightarrow> format_value option" where
  "AMediaFormat_get ty h a k =
     (case deref h a of None \<Rightarrow> None | Some f \<Rightarrow> typed_get ty f k)"

definition AMediaFormat_set :: "format_store \<Rightarrow> nat \<Rightarrow> format_key \<Rightarrow> format_value \<Rightarrow> format_store" where
  "AMediaFormat_set h a k v =
     (case deref h a of None \<Rightarrow> h | Some f \<Rightarrow> h[a := Some (f(k \<mapsto> v))])"

definition AMediaFormat_getString :: "format_store \<Rightarrow> nat \<Rightarrow> format_key \<Rightarrow> string option" where
  "AMediaFormat_getString h a k =
     (case AMediaFormat_get String_t h a k of
        Some (StringValue s) \<Rightarrow> Some s
      | _ \<Rightarrow> None)"

subsection \<open>The entry copiers\<close>

text \<open>
  Modelled from the spec: \<^verbatim>\<open>AMediaFormatUtils::EntryCopier\<close>, the macros
  \<^verbatim>\<open>ENTRY_COPIER\<close> and \<^verbatim>\<open>ENTRY_COPIER2\<close> and \<^verbatim>\<open>CopyFormatEntries\<close> are declared in
  \<^verbatim>\<open>NdkCommon.h\<close>, which is not part of \<^verbatim>\<open>MediaTranscoder.cpp\<close>. The spec describes them
  as a declarative table of (key, expected type) pairs applied generically: an entry
  overwrites its key in the destination with the source's value when the source defines
  that key. The entry of the operating rate names two types: its value is coerced from
  the floating-point representation to the integer representation. Every other value is
  written as the source holds it.
\<close>

datatype EntryCopier = EntryCopier format_key entry_type "entry_type option"

definition ENTRY_COPIER :: "format_key \<Rightarrow> entry_type \<Rightarrow> EntryCopier" where
  "ENTRY_COPIER keyName typeName = EntryCopier keyName typeName None"

definition ENTRY_COPIER2 :: "format_key \<Rightarrow> entry_type \<Rightarrow> entry_type \<Rightarrow> EntryCopier" where
  "ENTRY_COPIER2 keyName typeName typeName2 = EntryCopier keyName typeName (Some typeName2)"

fun coerced :: "entry_type \<Rightarrow> entry_type option \<Rightarrow> format_value \<Rightarrow> format_value" where
  "coerced Float_t (Some Int32_t) (FloatValue x) = Int32Value (as_int32 x)"
| "coerced typeName typeName2 v = v"

definition CopyFormatEntry ::
  "entry_type \<Rightarrow> entry_type option \<Rightarrow> format_key \<Rightarrow> format_store \<Rightarrow> nat \<Rightarrow> nat
     \<Rightarrow> format_store \<times> bool" where
  "CopyFormatEntry typeName typeName2 k h from to =
     (case deref h from of
        None \<Rightarrow> (h, False)
      | Some f \<Rightarrow>
          (case f k of
             None \<Rightarrow> (h, False)
           | Some v \<Rightarrow> (AMediaFormat_set h to k (coerced typeName typeName2 v), True)))"

fun copy_entry :: "format_store \<Rightarrow> nat \<Rightarrow> nat \<Rightarrow> EntryCopier \<Rightarrow> format_store" where
  "copy_entry h from to (EntryCopier k typeName typeName2) =
     fst (CopyFormatEntry typeName typeName2 k h from to)"

fun copy_entries :: "format_store \<Rightarrow> nat \<Rightarrow> nat \<Rightarrow> EntryCopier list \<Rightarrow> format_store" where
  "copy_entries h from to [] = h"
| "copy_entries h from to (e # es) = copy_entries (copy_entry h from to e) from to es"

definition CopyFormatEntries ::
  "format_store \<Rightarrow> nat option \<Rightarrow> nat option \<Rightarrow> EntryCopier list \<Rightarrow> format_store" where
  "CopyFormatEntries h from to entries =
     (case from of
        None \<Rightarrow> h
      | Some f \<Rightarrow> (case to of None \<Rightarrow> h | Some t \<Rightarrow> copy_entries h f t entries))"

subsection \<open>\<^verbatim>\<open>mergeMediaFormats\<close>\<close>

definition kSupportedFormatEntries :: "EntryCopier list" where
  "kSupportedFormatEntries =
     [ ENTRY_COPIER AMEDIAFORMAT_KEY_MIME String_t,
       ENTRY_COPIER AMEDIAFORMAT_KEY_DURATION Int64_t,
       ENTRY_COPIER AMEDIAFORMAT_KEY_WIDTH Int32_t,
       ENTRY_COPIER AMEDIAFORMAT_KEY_HEIGHT Int32_t,
       ENTRY_COPIER AMEDIAFORMAT_KEY_BIT_RATE Int32_t,
       ENTRY_COPIER AMEDIAFORMAT_KEY_PROFILE Int32_t,
       ENTRY_COPIER AMEDIAFORMAT_KEY_LEVEL Int32_t,
       ENTRY_COPIER AMEDIAFORMAT_KEY_COLOR_FORMAT Int32_t,
       ENTRY_COPIER AMEDIAFORMAT_KEY_COLOR_RANGE Int32_t,
       ENTRY_COPIER AMEDIAFORMAT_KEY_COLOR_STANDARD Int32_t,
       ENTRY_COPIER AMEDIAFORMAT_KEY_COLOR_TRANSFER Int32_t,
       ENTRY_COPIER AMEDIAFORMAT_KEY_FRAME_RATE Int32_t,
       ENTRY_COPIER AMEDIAFORMAT_KEY_I_FRAME_INTERVAL Int32_t,
       ENTRY_COPIER AMEDIAFORMAT_KEY_PRIORITY Int32_t,
       ENTRY_COPIER2 AMEDIAFORMAT_KEY_OPERATING_RATE Float_t Int32_t ]"

text \<open>
  The result is the store after the call and the returned pointer; \<open>None\<close> is
  \<^verbatim>\<open>nullptr\<close>.
\<close>

definition mergeMediaFormats ::
  "format_store \<Rightarrow> nat option \<Rightarrow> nat option \<Rightarrow> format_store \<times> nat option" where
  "mergeMediaFormats h base overlay =
     (case base of
        None \<Rightarrow> (h, None)
      | Some b \<Rightarrow>
          (case overlay of
             None \<Rightarrow> (h, None)
           | Some ov \<Rightarrow>
               (let (h1, format) = AMediaFormat_new h;
                    (h2, status) = AMediaFormat_copy h1 format b
                in if status \<noteq> AMEDIA_OK
                   then (AMediaFormat_delete h2 format, None)
                   else (CopyFormatEntries h2 (Some ov) (Some format) kSupportedFormatEntries,
                         Some format))))"

subsection \<open>What the merge is meant to compute\<close>

text \<open>
  The allow-list of the format merger, the overlay's value as the result holds it (the
  operating rate in the integer representation), and the merged descriptor written as
  one expression: the overlay's value for an allow-listed key that the overlay defines,
  and the base's entry for every other key.
\<close>

definition allow_list :: "format_key set" where
  "allow_list =
     { AMEDIAFORMAT_KEY_MIME, AMEDIAFORMAT_KEY_DURATION, AMEDIAFORMAT_KEY_WIDTH,
       AMEDIAFORMAT_KEY_HEIGHT, AMEDIAFORMAT_KEY_BIT_RATE, AMEDIAFORMAT_KEY_PROFILE,
       AMEDIAFORMAT_KEY_LEVEL, AMEDIAFORMAT_KEY_COLOR_FORMAT, AMEDIAFORMAT_KEY_COLOR_RANGE,
       AMEDIAFORMAT_KEY_COLOR_STANDARD, AMEDIAFORMAT_KEY_COLOR_TRANSFER,
       AMEDIAFORMAT_KEY_FRAME_RATE, AMEDIAFORMAT_KEY_I_FRAME_INTERVAL,
       AMEDIAFORMAT_KEY_PRIORITY, AMEDIAFORMAT_KEY_OPERATING_RATE }"

fun overlay_value :: "format_key \<Rightarrow> format_value \<Rightarrow> format_value" where
  "overlay_value AMEDIAFORMAT_KEY_OPERATING_RATE (FloatValue x) = Int32Value (as_int32 x)"
| "overlay_value k v = v"

definition merged_format :: "AMediaFormat \<Rightarrow> AMediaFormat \<Rightarrow> AMediaFormat" where
  "merged_format fb fo =
     (\<lambda>k. if k \<in> allow_list
          then (case fo k of None \<Rightarrow> fb k | Some v \<Rightarrow> Some (overlay_value k v))
          else fb k)"

text \<open>What one entry copier, and a list of them, does to the contents of the destination.\<close>

fun entry_key :: "EntryCopier \<Rightarrow> format_key" where
  "entry_key (EntryCopier k _ _) = k"

fun overlay_entry :: "AMediaFormat \<Rightarrow> AMediaFormat \<Rightarrow> EntryCopier \<Rightarrow> AMediaFormat" where
  "overlay_entry fo c (EntryCopier k typeName typeName2) =
     (case fo k of
        None \<Rightarrow> c
      | Some v \<Rightarrow> c(k \<mapsto> coerced typeName typeName2 v))"

fun overlay_entries :: "AMediaFormat \<Rightarrow> AMediaFormat \<Rightarrow> EntryCopier list \<Rightarrow> AMediaFormat" where
  "overlay_entries fo c [] = c"
| "overlay_entries fo c (e # es) = overlay_entries fo (overlay_entry fo c e) es"

section \<open>The session coordinator\<close>

subsection \<open>Collaborators\<close>

text \<open>
  Modelled from the spec: the sample reader, the sample writer and the track transcoders
  are external components (section 6 of the spec); \<^verbatim>\<open>MediaTranscoder.cpp\<close> only calls
  them. Each is a record of the answers it gives to those calls, fixed when the object is
  made, together with the state that the calls of the coordinator leave in it.
\<close>

record MediaSampleReader =
  rd_trackFormats :: "nat option list"
    \<comment> \<open>\<^verbatim>\<open>getTrackFormat(i)\<close>, a format pointer or \<^verbatim>\<open>nullptr\<close>; the length is \<^verbatim>\<open>getTrackCount()\<close>\<close>
  rd_selectTrack :: "nat \<Rightarrow> media_status_t"
    \<comment> \<open>the status that \<^verbatim>\<open>selectTrack(i)\<close> returns\<close>
  rd_selected :: "nat list"
    \<comment> \<open>the tracks selected so far\<close>
  rd_sequential :: bool
    \<comment> \<open>the mode set by \<^verbatim>\<open>setEnforceSequentialAccess\<close>\<close>

record MediaSampleWriter =
  wr_init :: bool
    \<comment> \<open>what \<^verbatim>\<open>init(fd, callbacks)\<close> returns\<close>
  wr_addTrack :: "nat option \<Rightarrow> bool"
    \<comment> \<open>whether \<^verbatim>\<open>addTrack(format)\<close> returns a consumer (\<open>True\<close>) or \<^verbatim>\<open>nullptr\<close>\<close>
  wr_start :: bool
    \<comment> \<open>what \<^verbatim>\<open>start()\<close> returns\<close>

datatype transcoder_kind = PassthroughTrackTranscoder | VideoTrackTranscoder

text \<open>
  The answers of a track transcoder that a call of \<^verbatim>\<open>configureTrackFormat\<close> creates, and
  a transcoder once it is configured. A configured transcoder is named by its position
  in \<^verbatim>\<open>mTrackTranscoders\<close>; that position stands for the pointer to it.
\<close>

record transcoder_answers =
  ans_configure :: media_status_t
  ans_start :: bool

record MediaTrackTranscoder =
  tc_kind :: transcoder_kind
  tc_trackIndex :: nat
  tc_format :: "nat option"
  tc_start :: bool

definition selectTrack :: "MediaSampleReader \<Rightarrow> nat \<Rightarrow> MediaSampleReader \<times> media_status_t" where
  "selectTrack r i =
     (let status = rd_selectTrack r i
      in if status = AMEDIA_OK then (r\<lparr>rd_selected := rd_selected r @ [i]\<rparr>, status)
         else (r, status))"

definition setEnforceSequentialAccess :: "MediaSampleReader \<Rightarrow> bool \<Rightarrow> MediaSampleReader" where
  "setEnforceSequentialAccess r b = r\<lparr>rd_sequential := b\<rparr>"

subsection \<open>The session\<close>

text \<open>
  The calls that reach the client's callback interface, and the calls that the
  coordinator makes on its collaborators while it runs, in the order they are made.
\<close>

datatype client_call =
    ClientFinished
  | ClientError media_status_t
  | ClientProgressUpdate int

datatype call =
    WriterAddTrack "nat option"
  | WriterStart
  | WriterStop
  | ReaderSetEnforceSequentialAccess bool
  | TranscoderSetSampleConsumer nat
  | TranscoderStart nat
  | TranscoderStop nat

text \<open>
  The fields of \<^verbatim>\<open>MediaTranscoder\<close>. \<open>mCallbacks\<close> is the client's callback interface,
  kept as the list of calls it has received. \<open>store\<close> holds the format objects,
  \<open>calls\<close> the calls made on the collaborators, and \<open>asyncCancelThreads\<close> the number
  of detached threads that \<^verbatim>\<open>sendCallback\<close> has created. A null \<^verbatim>\<open>shared_ptr\<close> is
  \<open>None\<close>.
\<close>

record MediaTranscoder =
  mCallbacks :: "client_call list"
  mSampleReader :: "MediaSampleReader option"
  mSampleWriter :: "MediaSampleWriter option"
  mSourceTrackFormats :: "nat list"
  mTrackTranscoders :: "MediaTrackTranscoder list"
  mTracksAdded :: "nat set"
  mCancelled :: bool
  mCallbackSent :: bool
  store :: format_store
  calls :: "call list"
  asyncCancelThreads :: nat

text \<open>
  Calling a member function through a null \<^verbatim>\<open>shared_ptr\<close> is a fault: the call does not
  return.
\<close>

datatype fault = NullDereference

text \<open>The constructor, as \<^verbatim>\<open>create\<close> calls it with a callback interface that is not null.\<close>

definition create :: "format_store \<Rightarrow> MediaTranscoder" where
  "create h =
     \<lparr> mCallbacks = [], mSampleReader = None, mSampleWriter = None,
       mSourceTrackFormats = [], mTrackTranscoders = [], mTracksAdded = {},
       mCancelled = False, mCallbackSent = False,
       store = h, calls = [], asyncCancelThreads = 0 \<rparr>"

subsection \<open>\<^verbatim>\<open>cancel\<close>, \<^verbatim>\<open>sendCallback\<close> and the event handlers\<close>

definition stop_sequence :: "MediaTranscoder \<Rightarrow> call list" where
  "stop_sequence s =
     [WriterStop, ReaderSetEnforceSequentialAccess False]
     @ map TranscoderStop [0 ..< length (mTrackTranscoders s)]"

definition cancel :: "MediaTranscoder \<Rightarrow> fault + MediaTranscoder \<times> media_status_t" where
  "cancel s =
     (if mCancelled s then Inr (s, AMEDIA_OK)
      else
        (let s1 = s\<lparr>mCancelled := True\<rparr>
         in case mSampleWriter s1 of
              None \<Rightarrow> Inl NullDereference
            | Some w \<Rightarrow>
                (let s2 = s1\<lparr>calls := calls s1 @ [WriterStop]\<rparr>
                 in case mSampleReader s2 of
                      None \<Rightarrow> Inl NullDereference
                    | Some r \<Rightarrow>
                        (let s3 = s2\<lparr>mSampleReader := Some (setEnforceSequentialAccess r False),
                                      calls := calls s2 @ [ReaderSetEnforceSequentialAccess False]\<rparr>;
                             s4 = s3\<lparr>calls := calls s3
                                        @ map TranscoderStop [0 ..< length (mTrackTranscoders s3)]\<rparr>
                         in Inr (s4, AMEDIA_OK)))))"

definition client_call_of :: "media_status_t \<Rightarrow> client_call" where
  "client_call_of status = (if status = AMEDIA_OK then ClientFinished else ClientError status)"

definition sendCallback :: "MediaTranscoder \<Rightarrow> media_status_t \<Rightarrow> MediaTranscoder" where
  "sendCallback s status =
     (if mCancelled s \<and> status \<noteq> AMEDIA_OK then s
      else if \<not> mCallbackSent s
      then s\<lparr>mCallbackSent := True,
              mCallbacks := mCallbacks s @ [client_call_of status],
              asyncCancelThreads := Suc (asyncCancelThreads s)\<rparr>
      else s)"

text \<open>
  \<^verbatim>\<open>onTrackFormatAvailable(transcoder)\<close>: \<open>t\<close> is the pointer to the transcoder and
  \<open>fmt\<close> is what its \<^verbatim>\<open>getOutputFormat()\<close> returns.
\<close>

definition onTrackFormatAvailable ::
  "MediaTranscoder \<Rightarrow> nat \<Rightarrow> nat option \<Rightarrow> fault + MediaTranscoder" where
  "onTrackFormatAvailable s t fmt =
     (if t \<in> mTracksAdded s then Inr s
      else
        (case mSampleWriter s of
           None \<Rightarrow> Inl NullDereference
         | Some w \<Rightarrow>
             (let s1 = s\<lparr>calls := calls s @ [WriterAddTrack fmt]\<rparr>
              in if \<not> wr_addTrack w fmt then Inr (sendCallback s1 AMEDIA_ERROR_UNKNOWN)
                 else
                   (let s2 = s1\<lparr>calls := calls s1 @ [TranscoderSetSampleConsumer t],
                                 mTracksAdded := insert t (mTracksAdded s1)\<rparr>
                    in if card (mTracksAdded s2) = length (mTrackTranscoders s2)
                       then
                         (case mSampleReader s2 of
                            None \<Rightarrow> Inl NullDereference
                          | Some r \<Rightarrow>
                              (let s3 = s2\<lparr>mSampleReader := Some (setEnforceSequentialAccess r True),
                                            calls := calls s2
                                              @ [ReaderSetEnforceSequentialAccess True, WriterStart]\<rparr>
                               in if \<not> wr_start w
                                  then Inr (sendCallback s3 AMEDIA_ERROR_UNKNOWN)
                                  else Inr s3))
                       else Inr s2))))"

definition onTrackFinished :: "MediaTranscoder \<Rightarrow> nat \<Rightarrow> MediaTranscoder" where
  "onTrackFinished s t = s"

definition onTrackError :: "MediaTranscoder \<Rightarrow> nat \<Rightarrow> media_status_t \<Rightarrow> MediaTranscoder" where
  "onTrackError s t status = sendCallback s status"

definition onFinished :: "MediaTranscoder \<Rightarrow> media_status_t \<Rightarrow> MediaTranscoder" where
  "onFinished s status = sendCallback s status"

definition onProgressUpdate :: "MediaTranscoder \<Rightarrow> int \<Rightarrow> MediaTranscoder" where
  "onProgressUpdate s progress = s\<lparr>mCallbacks := mCallbacks s @ [ClientProgressUpdate progress]\<rparr>"

subsection \<open>Configuration\<close>

text \<open>
  \<^verbatim>\<open>configureSource(fd)\<close>. \<open>createFromFd\<close> is \<^verbatim>\<open>MediaSampleReaderNDK::createFromFd\<close>:
  the reader it makes for a file descriptor, or \<open>None\<close> when it cannot parse the source.
\<close>

fun capture_track_formats ::
  "MediaTranscoder \<Rightarrow> nat option list \<Rightarrow> MediaTranscoder \<times> media_status_t" where
  "capture_track_formats s [] = (s, AMEDIA_OK)"
| "capture_track_formats s (None # rest) = (s, AMEDIA_ERROR_MALFORMED)"
| "capture_track_formats s (Some trackFormat # rest) =
     capture_track_formats (s\<lparr>mSourceTrackFormats := mSourceTrackFormats s @ [trackFormat]\<rparr>) rest"

definition configureSource ::
  "(int \<Rightarrow> MediaSampleReader option) \<Rightarrow> MediaTranscoder \<Rightarrow> int
     \<Rightarrow> MediaTranscoder \<times> media_status_t" where
  "configureSource createFromFd s fd =
     (if fd < 0 then (s, AMEDIA_ERROR_INVALID_PARAMETER)
      else
        (let s1 = s\<lparr>mSampleReader := createFromFd fd\<rparr>
         in case mSampleReader s1 of
              None \<Rightarrow> (s1, AMEDIA_ERROR_UNSUPPORTED)
            | Some r \<Rightarrow> capture_track_formats s1 (rd_trackFormats r)))"

text \<open>
  \<^verbatim>\<open>getTrackFormats()\<close>: the store after the call and the pointers returned.
\<close>

fun copy_track_formats :: "format_store \<Rightarrow> nat list \<Rightarrow> format_store \<times> nat list" where
  "copy_track_formats h [] = (h, [])"
| "copy_track_formats h (sourceFormat # rest) =
     (let (h1, copy) = AMediaFormat_new h;
          (h2, status) = AMediaFormat_copy h1 copy sourceFormat;
          (h3, trackFormats) = copy_track_formats h2 rest
      in (h3, copy # trackFormats))"

definition getTrackFormats :: "MediaTranscoder \<Rightarrow> MediaTranscoder \<times> nat list" where
  "getTrackFormats s =
     (let (h, trackFormats) = copy_track_formats (store s) (mSourceTrackFormats s)
      in (s\<lparr>store := h\<rparr>, trackFormats))"

text \<open>
  \<^verbatim>\<open>strncmp(mime, "video/", 6) != 0\<close> on a string without an inner NUL.
\<close>

definition not_video :: "string \<Rightarrow> bool" where
  "not_video mime = (take 6 mime \<noteq> ''video/'')"

text \<open>
  The end of \<^verbatim>\<open>configureTrackFormat\<close>, from \<^verbatim>\<open>transcoder->configure\<close> on. When the
  transcoder refuses its configuration, the transcoder and the merged format that only
  it and the local variable held are destroyed on return.
\<close>

definition register_transcoder ::
  "MediaTranscoder \<Rightarrow> nat \<Rightarrow> transcoder_kind \<Rightarrow> nat option \<Rightarrow> transcoder_answers
     \<Rightarrow> MediaTranscoder \<times> media_status_t" where
  "register_transcoder s trackIndex kind format answers =
     (let status = ans_configure answers
      in if status \<noteq> AMEDIA_OK
         then (case format of
                 None \<Rightarrow> (s, status)
               | Some m \<Rightarrow> (s\<lparr>store := AMediaFormat_delete (store s) m\<rparr>, status))
         else (s\<lparr>mTrackTranscoders := mTrackTranscoders s
                    @ [\<lparr>tc_kind = kind, tc_trackIndex = trackIndex, tc_format = format,
                        tc_start = ans_start answers\<rparr>]\<rparr>,
               AMEDIA_OK))"

text \<open>
  \<^verbatim>\<open>configureTrackFormat(trackIndex, trackFormat)\<close>. \<open>answers\<close> are the answers of the
  transcoder object that this call creates.
\<close>

definition configureTrackFormat ::
  "MediaTranscoder \<Rightarrow> nat \<Rightarrow> nat option \<Rightarrow> transcoder_answers
     \<Rightarrow> MediaTranscoder \<times> media_status_t" where
  "configureTrackFormat s trackIndex trackFormat answers =
     (case mSampleReader s of
        None \<Rightarrow> (s, AMEDIA_ERROR_INVALID_OPERATION)
      | Some r \<Rightarrow>
          if trackIndex \<ge> length (mSourceTrackFormats s)
          then (s, AMEDIA_ERROR_INVALID_PARAMETER)
          else
            (let (r1, status) = selectTrack r trackIndex;
                 s1 = s\<lparr>mSampleReader := Some r1\<rparr>
             in if status \<noteq> AMEDIA_OK then (s1, status)
                else
                  (case trackFormat of
                     None \<Rightarrow>
                       register_transcoder s1 trackIndex PassthroughTrackTranscoder None answers
                   | Some tf \<Rightarrow>
                       (case AMediaFormat_getString (store s1)
                               (mSourceTrackFormats s1 ! trackIndex) AMEDIAFORMAT_KEY_MIME of
                          None \<Rightarrow> (s1, AMEDIA_ERROR_MALFORMED)
                        | Some srcMime \<Rightarrow>
                            if not_video srcMime then (s1, AMEDIA_ERROR_UNSUPPORTED)
                            else if (case AMediaFormat_getString (store s1) tf AMEDIAFORMAT_KEY_MIME of
                                       Some dstMime \<Rightarrow> not_video dstMime
                                     | None \<Rightarrow> False)
                            then (s1, AMEDIA_ERROR_UNSUPPORTED)
                            else
                              (let (h, mergedFormat) =
                                     mergeMediaFormats (store s1)
                                       (Some (mSourceTrackFormats s1 ! trackIndex)) (Some tf);
                                   s2 = s1\<lparr>store := h\<rparr>
                               in case mergedFormat of
                                    None \<Rightarrow> (s2, AMEDIA_ERROR_UNKNOWN)
                                  | Some m \<Rightarrow>
                                      register_transcoder s2 trackIndex VideoTrackTranscoder
                                        (Some m) answers)))))"

text \<open>
  \<^verbatim>\<open>configureDestination(fd)\<close>. \<open>Create\<close> is the writer that
  \<^verbatim>\<open>MediaSampleWriter::Create()\<close> makes.
\<close>

definition configureDestination ::
  "MediaSampleWriter \<Rightarrow> MediaTranscoder \<Rightarrow> int \<Rightarrow> MediaTranscoder \<times> media_status_t" where
  "configureDestination Create s fd =
     (if fd < 0 then (s, AMEDIA_ERROR_INVALID_PARAMETER)
      else if mSampleWriter s \<noteq> None then (s, AMEDIA_ERROR_INVALID_OPERATION)
      else
        (let s1 = s\<lparr>mSampleWriter := Some Create\<rparr>;
             initOk = wr_init Create
         in if \<not> initOk then (s1\<lparr>mSampleWriter := None\<rparr>, AMEDIA_ERROR_UNKNOWN)
            else (s1, AMEDIA_OK)))"

subsection \<open>\<^verbatim>\<open>start\<close>, \<^verbatim>\<open>pause\<close>, \<^verbatim>\<open>resume\<close>\<close>

text \<open>
  The loop of \<^verbatim>\<open>start\<close> over \<^verbatim>\<open>mTrackTranscoders\<close>; \<open>i\<close> is the position of the first
  transcoder still to start.
\<close>

fun start_transcoders ::
  "MediaTranscoder \<Rightarrow> nat \<Rightarrow> MediaTrackTranscoder list
     \<Rightarrow> fault + MediaTranscoder \<times> media_status_t" where
  "start_transcoders s i [] = Inr (s, AMEDIA_OK)"
| "start_transcoders s i (transcoder # rest) =
     (let s1 = s\<lparr>calls := calls s @ [TranscoderStart i]\<rparr>;
          started = tc_start transcoder
      in if \<not> started
         then (case cancel s1 of
                 Inl f \<Rightarrow> Inl f
               | Inr (s2, _) \<Rightarrow> Inr (s2, AMEDIA_ERROR_UNKNOWN))
         else start_transcoders s1 (Suc i) rest)"

definition start :: "MediaTranscoder \<Rightarrow> fault + MediaTranscoder \<times> media_status_t" where
  "start s =
     (if length (mTrackTranscoders s) < 1 then Inr (s, AMEDIA_ERROR_INVALID_OPERATION)
      else if mSampleWriter s = None then Inr (s, AMEDIA_ERROR_INVALID_OPERATION)
      else start_transcoders s 0 (mTrackTranscoders s))"

text \<open>
  \<^verbatim>\<open>pause\<close> hands back an empty parcel and returns what \<^verbatim>\<open>cancel\<close> returns;
  \<^verbatim>\<open>resume\<close> returns what \<^verbatim>\<open>start\<close> returns.
\<close>

definition pause :: "MediaTranscoder \<Rightarrow> fault + MediaTranscoder \<times> media_status_t" where
  "pause s = cancel s"

definition resume :: "MediaTranscoder \<Rightarrow> fault + MediaTranscoder \<times> media_status_t" where
  "resume s = start s"

subsection \<open>Threads\<close>

text \<open>
  \<^verbatim>\<open>sendCallback\<close> and \<^verbatim>\<open>cancel\<close> run on whatever thread calls them and take no
  lock: they meet only in the two atomic flags. A thread that runs one of them is a
  program counter, and one step of a thread is one access to the shared session: the
  read of \<^verbatim>\<open>mCancelled\<close>, a compare-exchange, or a call on the client or on a
  collaborator. The step returns the session, the thread's next program counter and
  the threads it has created.
\<close>

datatype pc =
    SendCallback_entry media_status_t
  | SendCallback_exchange media_status_t
  | SendCallback_notify media_status_t
  | SendCallback_detach
  | SendCallback_return
  | Cancel_entry
  | Cancel_stopWriter
  | Cancel_setSequential
  | Cancel_stopTranscoder nat
  | Cancel_return media_status_t
  | Fault

fun thread_step :: "MediaTranscoder \<Rightarrow> pc \<Rightarrow> MediaTranscoder \<times> pc \<times> pc list" where
  "thread_step s (SendCallback_entry status) =
     (if mCancelled s \<and> status \<noteq> AMEDIA_OK then (s, SendCallback_return, [])
      else (s, SendCallback_exchange status, []))"
| "thread_step s (SendCallback_exchange status) =
     (if \<not> mCallbackSent s then (s\<lparr>mCallbackSent := True\<rparr>, SendCallback_notify status, [])
      else (s, SendCallback_return, []))"
| "thread_step s (SendCallback_notify status) =
     (s\<lparr>mCallbacks := mCallbacks s @ [client_call_of status]\<rparr>, SendCallback_detach, [])"
| "thread_step s SendCallback_detach =
     (s\<lparr>asyncCancelThreads := Suc (asyncCancelThreads s)\<rparr>, SendCallback_return, [Cancel_entry])"
| "thread_step s Cancel_entry =
     (if \<not> mCancelled s then (s\<lparr>mCancelled := True\<rparr>, Cancel_stopWriter, [])
      else (s, Cancel_return AMEDIA_OK, []))"
| "thread_step s Cancel_stopWriter =
     (case mSampleWriter s of
        None \<Rightarrow> (s, Fault, [])
      | Some w \<Rightarrow> (s\<lparr>calls := calls s @ [WriterStop]\<rparr>, Cancel_setSequential, []))"
| "thread_step s Cancel_setSequential =
     (case mSampleReader s of
        None \<Rightarrow> (s, Fault, [])
      | Some r \<Rightarrow>
          (s\<lparr>mSampleReader := Some (setEnforceSequentialAccess r False),
              calls := calls s @ [ReaderSetEnforceSequentialAccess False]\<rparr>,
           Cancel_stopTranscoder 0, []))"
| "thread_step s (Cancel_stopTranscoder i) =
     (if i < length (mTrackTranscoders s)
      then (s\<lparr>calls := calls s @ [TranscoderStop i]\<rparr>, Cancel_stopTranscoder (Suc i), [])
      else (s, Cancel_return AMEDIA_OK, []))"
| "thread_step s SendCallback_return = (s, SendCallback_return, [])"
| "thread_step s (Cancel_return status) = (s, Cancel_return status, [])"
| "thread_step s Fault = (s, Fault, [])"

text \<open>
  A schedule is the list of the threads that take the next step, by their position in
  the pool. A thread that has returned does nothing when it is scheduled, and after a
  fault nothing runs any more. A thread enters the pool at its entry point and runs
  when the schedule says so, so the pool at the start stands for calls that arrive at
  any time. A call of \<^verbatim>\<open>cancel\<close> that the client makes from inside its callback is
  among them: it makes the accesses of a thread of the pool that the schedule runs from
  its entry to its return between the notify step and the detach step of the thread
  that calls the client.
\<close>

type_synonym config = "MediaTranscoder \<times> pc list"

fun sched_step :: "nat \<Rightarrow> config \<Rightarrow> config" where
  "sched_step i (s, pcs) =
     (if i < length pcs \<and> Fault \<notin> set pcs
      then (case thread_step s (pcs ! i) of
              (s', pc', created) \<Rightarrow> (s', pcs[i := pc'] @ created))
      else (s, pcs))"

fun exec :: "nat list \<Rightarrow> config \<Rightarrow> config" where
  "exec [] c = c"
| "exec (i # sched) c = exec sched (sched_step i c)"

fun returned :: "pc \<Rightarrow> bool" where
  "returned SendCallback_return = True"
| "returned (Cancel_return _) = True"
| "returned _ = False"

fun entry_point :: "pc \<Rightarrow> bool" where
  "entry_point (SendCallback_entry _) = True"
| "entry_point Cancel_entry = True"
| "entry_point _ = False"

text \<open>
  A thread that has won the compare-exchange of \<^verbatim>\<open>cancel\<close> and is in its stop sequence,
  and the calls it has made when it stands at a program counter.
\<close>

fun stopping :: "pc \<Rightarrow> bool" where
  "stopping Cancel_stopWriter = True"
| "stopping Cancel_setSequential = True"
| "stopping (Cancel_stopTranscoder _) = True"
| "stopping _ = False"

fun stops_done :: "pc \<Rightarrow> call list" where
  "stops_done Cancel_setSequential = [WriterStop]"
| "stops_done (Cancel_stopTranscoder i) =
     [WriterStop, ReaderSetEnforceSequentialAccess False] @ map TranscoderStop [0 ..< i]"
| "stops_done _ = []"

fun notifying :: "pc \<Rightarrow> bool" where
  "notifying (SendCallback_notify _) = True"
| "notifying _ = False"

definition count_pcs :: "(pc \<Rightarrow> bool) \<Rightarrow> pc list \<Rightarrow> nat" where
  "count_pcs P pcs = sum_list (map (\<lambda>p. if P p then 1 else 0) pcs)"

text \<open>The terminal callbacks among the calls the client has received.\<close>

fun terminal :: "client_call \<Rightarrow> bool" where
  "terminal ClientFinished = True"
| "terminal (ClientError _) = True"
| "terminal (ClientProgressUpdate _) = False"

definition terminal_calls :: "MediaTranscoder \<Rightarrow> client_call list" where
  "terminal_calls s = filter terminal (mCallbacks s)"

text \<open>
  The object that \<^verbatim>\<open>getTrackFormats\<close> builds for one source format: a new object that a
  copy from the source has filled. The status of the copy is not looked at, so for an
  address that holds no live object the new object stays empty.
\<close>

definition copied_format :: "format_store \<Rightarrow> nat \<Rightarrow> AMediaFormat option" where
  "copied_format h a = Some (case deref h a of Some f \<Rightarrow> f | None \<Rightarrow> Map.empty)"

section \<open>A session to run the properties on\<close>

text \<open>
  The scenario of the spec: a source with an audio track and a video track; the audio
  track is passed through, the video track is transcoded with an override that lowers
  the bit rate; then the destination is configured. The store holds the two source
  formats, the override, and an override that asks for an audio mime type.
\<close>

definition demo_store :: format_store where
  "demo_store =
     [ Some [AMEDIAFORMAT_KEY_MIME \<mapsto> StringValue ''audio/mp4a-latm''],
       Some [AMEDIAFORMAT_KEY_MIME \<mapsto> StringValue ''video/avc'',
             AMEDIAFORMAT_KEY_BIT_RATE \<mapsto> Int32Value 8000000],
       Some [AMEDIAFORMAT_KEY_BIT_RATE \<mapsto> Int32Value 2000000],
       Some [AMEDIAFORMAT_KEY_MIME \<mapsto> StringValue ''audio/aac''] ]"

definition demo_reader :: MediaSampleReader where
  "demo_reader =
     \<lparr> rd_trackFormats = [Some 0, Some 1], rd_selectTrack = (\<lambda>i. AMEDIA_OK),
       rd_selected = [], rd_sequential = False \<rparr>"

definition demo_writer :: MediaSampleWriter where
  "demo_writer = \<lparr> wr_init = True, wr_addTrack = (\<lambda>format. True), wr_start = True \<rparr>"

definition demo_answers :: transcoder_answers where
  "demo_answers = \<lparr> ans_configure = AMEDIA_OK, ans_start = True \<rparr>"

definition demo_source :: MediaTranscoder where
  "demo_source = fst (configureSource (\<lambda>fd. Some demo_reader) (create demo_store) 3)"

definition demo_tracks :: MediaTranscoder where
  "demo_tracks =
     fst (configureTrackFormat
            (fst (configureTrackFormat demo_source 0 None demo_answers))
            1 (Some 2) demo_answers)"

definition demo_session :: MediaTranscoder where
  "demo_session = fst (configureDestination demo_writer demo_tracks 4)"

text \<open>A source whose only track has a format without a mime type.\<close>

definition demo_no_mime :: MediaTranscoder where
  "demo_no_mime =
     fst (configureSource (\<lambda>fd. Some (demo_reader\<lparr>rd_trackFormats := [Some 2]\<rparr>))
            (create demo_store) 3)"

text \<open>
  The two tracks passed through and the destination configured, with a second
  transcoder that will refuse to start.
\<close>

definition demo_failing_start :: MediaTranscoder where
  "demo_failing_start =
     fst (configureDestination demo_writer
            (fst (configureTrackFormat
                    (fst (configureTrackFormat demo_source 0 None demo_answers))
                    1 None (demo_answers\<lparr>ans_start := False\<rparr>)))
            4)"

text \<open>A session whose destination is configured and whose source is not.\<close>

definition demo_destination_only :: MediaTranscoder where
  "demo_destination_only = fst (configureDestination demo_writer (create demo_store) 4)"

text \<open>The session of the scenario after \<^verbatim>\<open>start\<close>, and after \<^verbatim>\<open>start\<close> and \<^verbatim>\<open>cancel\<close>.\<close>

definition demo_started :: MediaTranscoder where
  "demo_started = (case start demo_session of Inr (s, status) \<Rightarrow> s | Inl f \<Rightarrow> demo_session)"

definition demo_cancelled :: MediaTranscoder where
  "demo_cancelled = (case cancel demo_started of Inr (s, status) \<Rightarrow> s | Inl f \<Rightarrow> demo_started)"

section \<open>Runs of a configured session\<close>

text \<open>
  The calls that reach a session once it is configured: the events of the track
  transcoders and of the writer, and the control calls of the client (\<^verbatim>\<open>cancel\<close> is also
  what the detached thread of \<^verbatim>\<open>sendCallback\<close> calls). A run handles a list of them one
  after the other and stops at a fault.
\<close>

datatype event =
    TrackFormatAvailable nat "nat option"
  | TrackFinished nat
  | TrackError nat media_status_t
  | WriterFinished media_status_t
  | ProgressUpdate int
  | CancelCall
  | StartCall
  | PauseCall
  | ResumeCall

definition dropping_status ::
  "fault + MediaTranscoder \<times> media_status_t \<Rightarrow> fault + MediaTranscoder" where
  "dropping_status r = (case r of Inl f \<Rightarrow> Inl f | Inr (s, status) \<Rightarrow> Inr s)"

fun handle :: "MediaTranscoder \<Rightarrow> event \<Rightarrow> fault + MediaTranscoder" where
  "handle s (TrackFormatAvailable t fmt) = onTrackFormatAvailable s t fmt"
| "handle s (TrackFinished t) = Inr (onTrackFinished s t)"
| "handle s (TrackError t status) = Inr (onTrackError s t status)"
| "handle s (WriterFinished status) = Inr (onFinished s status)"
| "handle s (ProgressUpdate progress) = Inr (onProgressUpdate s progress)"
| "handle s CancelCall = dropping_status (cancel s)"
| "handle s StartCall = dropping_status (start s)"
| "handle s PauseCall = dropping_status (pause s)"
| "handle s ResumeCall = dropping_status (resume s)"

fun run :: "MediaTranscoder \<Rightarrow> event list \<Rightarrow> fault + MediaTranscoder" where
  "run s [] = Inr s"
| "run s (ev # evs) = (case handle s ev of Inl f \<Rightarrow> Inl f | Inr s' \<Rightarrow> run s' evs)"

text \<open>The status that a terminal event of a track or of the writer carries.\<close>

fun terminal_status :: "event \<Rightarrow> media_status_t option" where
  "terminal_status (TrackError t status) = Some status"
| "terminal_status (WriterFinished status) = Some status"
| "terminal_status _ = None"

text \<open>
  How often \<^verbatim>\<open>start\<close> has been called on the writer, and the transcoders that report
  their output format in a list of events.
\<close>

definition writer_starts :: "MediaTranscoder \<Rightarrow> nat" where
  "writer_starts s = count_list (calls s) WriterStart"

fun reporting :: "event \<Rightarrow> nat list" where
  "reporting (TrackFormatAvailable t fmt) = [t]"
| "reporting _ = []"

definition reported :: "event list \<Rightarrow> nat set" where
  "reported evs = set (concat (map reporting evs))"

subsection \<open>Invariants of the threads\<close>

text \<open>
  The status that a thread in \<^verbatim>\<open>sendCallback\<close> still carries, and the threads that have
  not yet passed the compare-exchange of \<^verbatim>\<open>sendCallback\<close>.
\<close>

fun pc_status :: "pc \<Rightarrow> media_status_t option" where
  "pc_status (SendCallback_entry status) = Some status"
| "pc_status (SendCallback_exchange status) = Some status"
| "pc_status (SendCallback_notify status) = Some status"
| "pc_status _ = None"

fun waiting :: "pc \<Rightarrow> bool" where
  "waiting (SendCallback_entry _) = True"
| "waiting (SendCallback_exchange _) = True"
| "waiting _ = False"

text \<open>
  The one-shot callback flag: the client has received the calls \<open>c0\<close> it had received at
  the start and then terminal callbacks for statuses of \<open>S\<close>; their number, together
  with the threads that have won the compare-exchange and have not called the client yet,
  is one when the flag is set and was not set at the start (\<open>b0\<close>), and zero otherwise.
\<close>

definition callback_inv ::
  "media_status_t set \<Rightarrow> client_call list \<Rightarrow> bool \<Rightarrow> config \<Rightarrow> bool" where
  "callback_inv S c0 b0 c =
     (case c of (s, pcs) \<Rightarrow>
        (\<forall>p\<in>set pcs. \<forall>status. pc_status p = Some status \<longrightarrow> status \<in> S)
        \<and> (b0 \<longrightarrow> mCallbackSent s)
        \<and> (\<exists>new. mCallbacks s = c0 @ new
                  \<and> set new \<subseteq> client_call_of ` S
                  \<and> length new + count_pcs notifying pcs + (if b0 then 1 else 0)
                      = (if mCallbackSent s then 1 else 0)))"

text \<open>
  Without a call of \<^verbatim>\<open>cancel\<close> from outside, the cancelled flag is set, and a thread
  is past the compare-exchange of \<^verbatim>\<open>sendCallback\<close> or in \<^verbatim>\<open>cancel\<close>, only when the
  callback flag is set.
\<close>

definition started_inv :: "config \<Rightarrow> bool" where
  "started_inv c =
     (case c of (s, pcs) \<Rightarrow>
        (mCancelled s \<or> (\<exists>p\<in>set pcs. \<not> waiting p)) \<longrightarrow> mCallbackSent s)"

text \<open>
  The one-shot cancelled flag, in a session whose reader and writer are there and that
  has \<open>n\<close> transcoders: while the flag is not set no stop call has been made (\<open>c0\<close> are
  the calls made before); once it is set at most one thread is in the stop sequence, the
  calls made are those that thread has made, and when no thread is in the stop
  sequence, the whole sequence has been made.
\<close>

definition stop_inv :: "call list \<Rightarrow> nat \<Rightarrow> config \<Rightarrow> bool" where
  "stop_inv c0 n c =
     (case c of (s, pcs) \<Rightarrow>
        mSampleWriter s \<noteq> None \<and> mSampleReader s \<noteq> None
        \<and> length (mTrackTranscoders s) = n
        \<and> Fault \<notin> set pcs
        \<and> (\<forall>status. Cancel_return status \<in> set pcs \<longrightarrow> status = AMEDIA_OK \<and> mCancelled s)
        \<and> (\<not> mCancelled s \<longrightarrow> count_pcs stopping pcs = 0 \<and> calls s = c0)
        \<and> (mCancelled s \<longrightarrow>
              count_pcs stopping pcs \<le> 1
              \<and> (count_pcs stopping pcs = 0 \<longrightarrow>
                    calls s = c0 @ [WriterStop, ReaderSetEnforceSequentialAccess False]
                                 @ map TranscoderStop [0 ..< n])
              \<and> (\<forall>p\<in>set pcs. stopping p \<longrightarrow>
                    calls s = c0 @ stops_done p
                    \<and> (\<forall>i. p = Cancel_stopTranscoder i \<longrightarrow> i \<le> n))))"

text \<open>
  A bound on the steps that a thread, and the thread it may still create, have left in a
  session with \<open>n\<close> transcoders.
\<close>

fun steps_left :: "nat \<Rightarrow> pc \<Rightarrow> nat" where
  "steps_left n (SendCallback_entry _) = n + 8"
| "steps_left n (SendCallback_exchange _) = n + 7"
| "steps_left n (SendCallback_notify _) = n + 6"
| "steps_left n SendCallback_detach = n + 5"
| "steps_left n SendCallback_return = 0"
| "steps_left n Cancel_entry = n + 4"
| "steps_left n Cancel_stopWriter = n + 3"
| "steps_left n Cancel_setSequential = n + 2"
| "steps_left n (Cancel_stopTranscoder i) = Suc (n - i)"
| "steps_left n (Cancel_return _) = 0"
| "steps_left n Fault = 0"

definition work_left :: "nat \<Rightarrow> pc list \<Rightarrow> nat" where
  "work_left n pcs = sum_list (map (steps_left n) pcs)"

section \<open>The format merger\<close>

lemma deref_Some: "deref h a = Some f \<longleftrightarrow> a < length h \<and> h ! a = Some f"
  by (simp add: deref_def)

lemma copy_entry_contents:
  assumes "from \<noteq> to" "deref h from = Some fo" "deref h to = Some c"
  shows "copy_entry h from to e = h[to := Some (overlay_entry fo c e)]"
proof (cases e)
  case (EntryCopier k ty ty2)
  from assms have to: "to < length h" "h ! to = Some c" by (simp_all add: deref_Some)
  have id: "h[to := Some c] = h" using to by (metis list_update_id)
  show ?thesis
    using assms id
    by (auto simp: EntryCopier CopyFormatEntry_def AMediaFormat_set_def split: option.splits)
qed

lemma copy_entries_contents:
  assumes "from \<noteq> to" "deref h from = Some fo" "deref h to = Some c"
  shows "copy_entries h from to es = h[to := Some (overlay_entries fo c es)]"
  using assms
proof (induction es arbitrary: h c)
  case Nil
  then show ?case by (simp add: deref_Some) (metis list_update_id)
next
  case (Cons e es)
  let ?h = "h[to := Some (overlay_entry fo c e)]"
  have step: "copy_entry h from to e = ?h"
    using Cons.prems by (rule copy_entry_contents)
  have "deref ?h from = Some fo" "deref ?h to = Some (overlay_entry fo c e)"
    using Cons.prems by (auto simp: deref_Some)
  from Cons.IH[OF Cons.prems(1) this] step show ?case by simp
qed

lemma overlay_entry_other: "entry_key e \<noteq> k \<Longrightarrow> overlay_entry fo c e k = c k"
  by (cases e) (simp split: option.splits)

lemma overlay_entries_other:
  "k \<notin> entry_key ` set es \<Longrightarrow> overlay_entries fo c es k = c k"
  by (induction es arbitrary: c) (auto simp: overlay_entry_other)

lemma overlay_entries_at:
  assumes "distinct (map entry_key es)" "EntryCopier k ty ty2 \<in> set es"
  shows "overlay_entries fo c es k = overlay_entry fo c (EntryCopier k ty ty2) k"
  using assms
proof (induction es arbitrary: c)
  case Nil
  then show ?case by simp
next
  case (Cons e es)
  show ?case
  proof (cases "e = EntryCopier k ty ty2")
    case True
    have "k \<notin> entry_key ` set es" using Cons.prems(1) True by auto
    then show ?thesis using True by (simp add: overlay_entries_other)
  next
    case False
    then have mem: "EntryCopier k ty ty2 \<in> set es" using Cons.prems(2) by simp
    have "entry_key (EntryCopier k ty ty2) \<in> entry_key ` set es"
      using mem by (rule imageI)
    then have "entry_key e \<noteq> k" using Cons.prems(1) by auto
    then have "overlay_entry fo (overlay_entry fo c e) (EntryCopier k ty ty2) k
               = overlay_entry fo c (EntryCopier k ty ty2) k"
      by (simp add: overlay_entry_other split: option.splits)
    with Cons.IH[of "overlay_entry fo c e"] Cons.prems(1) mem show ?thesis by simp
  qed
qed

lemma table_keys: "entry_key ` set kSupportedFormatEntries = allow_list"
  by (simp add: kSupportedFormatEntries_def ENTRY_COPIER_def ENTRY_COPIER2_def allow_list_def)

lemma table_distinct: "distinct (map entry_key kSupportedFormatEntries)"
  by (simp add: kSupportedFormatEntries_def ENTRY_COPIER_def ENTRY_COPIER2_def)

lemma table_entry:
  "k \<in> allow_list \<Longrightarrow>
     EntryCopier k (if k = AMEDIAFORMAT_KEY_MIME then String_t
                    else if k = AMEDIAFORMAT_KEY_DURATION then Int64_t
                    else if k = AMEDIAFORMAT_KEY_OPERATING_RATE then Float_t else Int32_t)
                   (if k = AMEDIAFORMAT_KEY_OPERATING_RATE then Some Int32_t else None)
       \<in> set kSupportedFormatEntries"
  by (auto simp: kSupportedFormatEntries_def ENTRY_COPIER_def ENTRY_COPIER2_def allow_list_def)

lemma coerced_single: "coerced typeName None v = v"
  by (cases typeName; cases v) simp_all

lemma coerced_operating_rate:
  "coerced Float_t (Some Int32_t) v = overlay_value AMEDIAFORMAT_KEY_OPERATING_RATE v"
  by (cases v) simp_all

lemma overlay_value_other: "k \<noteq> AMEDIAFORMAT_KEY_OPERATING_RATE \<Longrightarrow> overlay_value k v = v"
  by (cases k; cases v) simp_all

lemma overlay_value_no_float: "\<forall>x. v \<noteq> FloatValue x \<Longrightarrow> overlay_value k v = v"
  by (cases k; cases v) simp_all

lemma overlay_table: "overlay_entries fo fb kSupportedFormatEntries = merged_format fb fo"
proof
  fix k
  show "overlay_entries fo fb kSupportedFormatEntries k = merged_format fb fo k"
  proof (cases "k \<in> allow_list")
    case False
    then show ?thesis
      by (simp add: overlay_entries_other table_keys merged_format_def)
  next
    case True
    show ?thesis
      unfolding overlay_entries_at[OF table_distinct table_entry[OF True]]
      using True
      by (cases "fo k")
         (auto simp: merged_format_def coerced_single coerced_operating_rate
                     overlay_value_other)
  qed
qed

lemma merge_null: "mergeMediaFormats h None overlay = (h, None)"
  "mergeMediaFormats h base None = (h, None)"
  by (simp_all add: mergeMediaFormats_def split: option.splits)

lemma merge_live:
  assumes "deref h b = Some fb" "deref h ov = Some fo"
  shows "mergeMediaFormats h (Some b) (Some ov)
         = (h @ [Some (merged_format fb fo)], Some (length h))"
proof -
  let ?h1 = "h @ [Some Map.empty]"
  let ?h2 = "h @ [Some fb]"
  from assms have b: "b < length h" "h ! b = Some fb" and o: "ov < length h" "h ! ov = Some fo"
    by (simp_all add: deref_Some)
  have c: "AMediaFormat_copy ?h1 (length h) b = (?h2, AMEDIA_OK)"
    using b by (simp add: AMediaFormat_copy_def deref_def nth_append)
  have "copy_entries ?h2 ov (length h) kSupportedFormatEntries
        = ?h2[length h := Some (overlay_entries fo fb kSupportedFormatEntries)]"
    using o by (intro copy_entries_contents) (auto simp: deref_Some nth_append)
  then show ?thesis
    using c
    by (simp add: mergeMediaFormats_def AMediaFormat_new_def CopyFormatEntries_def overlay_table)
qed

lemma deref_append: "deref h a = Some f \<Longrightarrow> deref (h @ h') a = Some f"
  by (simp add: deref_Some nth_append)

text \<open>
  C5. \<^verbatim>\<open>mergeMediaFormats\<close> returns \<^verbatim>\<open>nullptr\<close> and leaves the store alone when either
  input is \<^verbatim>\<open>nullptr\<close>. For two live inputs it returns a new object, at an address that
  was not in use, and leaves every object that existed, the two inputs among them, as it
  was. The new object holds the base's value for every key, except that each
  allow-listed key that the overlay defines takes the overlay's value; for the operating
  rate a value that the overlay holds as a float is the overlay's value in the integer
  representation. Keys outside the allow-list and allow-listed keys absent from the
  overlay keep the base's value, and a key outside the allow-list that only the overlay
  has is absent from the result. A second merge of the same inputs builds an object
  with the same contents.
\<close>

theorem mergeMediaFormats_allow_list:
  "mergeMediaFormats h None overlay = (h, None)
   \<and> mergeMediaFormats h base None = (h, None)
   \<and> (deref h b = Some fb \<longrightarrow> deref h ov = Some fo \<longrightarrow>
        mergeMediaFormats h (Some b) (Some ov)
          = (h @ [Some (merged_format fb fo)], Some (length h))
        \<and> mergeMediaFormats (h @ [Some (merged_format fb fo)]) (Some b) (Some ov)
          = (h @ [Some (merged_format fb fo), Some (merged_format fb fo)], Some (Suc (length h)))
        \<and> (\<forall>k v. k \<in> allow_list \<longrightarrow> fo k = Some v \<longrightarrow> k \<noteq> AMEDIAFORMAT_KEY_OPERATING_RATE
                   \<longrightarrow> merged_format fb fo k = Some v)
        \<and> (\<forall>v. fo AMEDIAFORMAT_KEY_OPERATING_RATE = Some v \<longrightarrow> (\<forall>x. v \<noteq> FloatValue x)
                   \<longrightarrow> merged_format fb fo AMEDIAFORMAT_KEY_OPERATING_RATE = Some v)
        \<and> (\<forall>x. fo AMEDIAFORMAT_KEY_OPERATING_RATE = Some (FloatValue x)
                   \<longrightarrow> merged_format fb fo AMEDIAFORMAT_KEY_OPERATING_RATE
                        = Some (Int32Value (as_int32 x)))
        \<and> (\<forall>k. fo k = None \<longrightarrow> merged_format fb fo k = fb k)
        \<and> (\<forall>k. k \<notin> allow_list \<longrightarrow> merged_format fb fo k = fb k)
        \<and> (\<forall>k. k \<notin> allow_list \<longrightarrow> fb k = None \<longrightarrow> merged_format fb fo k = None))"
proof (intro conjI impI)
  assume live: "deref h b = Some fb" "deref h ov = Some fo"
  show "mergeMediaFormats h (Some b) (Some ov)
          = (h @ [Some (merged_format fb fo)], Some (length h))"
    using live by (rule merge_live)
  have "mergeMediaFormats (h @ [Some (merged_format fb fo)]) (Some b) (Some ov)
        = ((h @ [Some (merged_format fb fo)]) @ [Some (merged_format fb fo)],
           Some (length (h @ [Some (merged_format fb fo)])))"
    using live by (intro merge_live deref_append)
  then show "mergeMediaFormats (h @ [Some (merged_format fb fo)]) (Some b) (Some ov)
          = (h @ [Some (merged_format fb fo), Some (merged_format fb fo)], Some (Suc (length h)))"
    by simp
  show "\<forall>v. fo AMEDIAFORMAT_KEY_OPERATING_RATE = Some v \<longrightarrow> (\<forall>x. v \<noteq> FloatValue x)
             \<longrightarrow> merged_format fb fo AMEDIAFORMAT_KEY_OPERATING_RATE = Some v"
    by (simp add: merged_format_def allow_list_def overlay_value_no_float)
qed (auto simp: merge_null merged_format_def allow_list_def overlay_value_other
          split: option.splits)

theorem mergeMediaFormats_allow_list_witness:
  "deref [Some [AMEDIAFORMAT_KEY_BIT_RATE \<mapsto> Int32Value 8000000,
                OTHER_KEY ''rotation-degrees'' \<mapsto> Int32Value 90],
          Some [AMEDIAFORMAT_KEY_BIT_RATE \<mapsto> Int32Value 2000000,
                AMEDIAFORMAT_KEY_OPERATING_RATE \<mapsto> FloatValue (Float 1123024896 120),
                OTHER_KEY ''language'' \<mapsto> StringValue ''en'']] 0
     = Some [AMEDIAFORMAT_KEY_BIT_RATE \<mapsto> Int32Value 8000000,
             OTHER_KEY ''rotation-degrees'' \<mapsto> Int32Value 90]
   \<and> deref [Some [AMEDIAFORMAT_KEY_BIT_RATE \<mapsto> Int32Value 8000000,
                  OTHER_KEY ''rotation-degrees'' \<mapsto> Int32Value 90],
            Some [AMEDIAFORMAT_KEY_BIT_RATE \<mapsto> Int32Value 2000000,
                  AMEDIAFORMAT_KEY_OPERATING_RATE \<mapsto> FloatValue (Float 1123024896 120),
                  OTHER_KEY ''language'' \<mapsto> StringValue ''en'']] 1
     = Some [AMEDIAFORMAT_KEY_BIT_RATE \<mapsto> Int32Value 2000000,
             AMEDIAFORMAT_KEY_OPERATING_RATE \<mapsto> FloatValue (Float 1123024896 120),
             OTHER_KEY ''language'' \<mapsto> StringValue ''en'']
   \<and> snd (mergeMediaFormats
            [Some [AMEDIAFORMAT_KEY_BIT_RATE \<mapsto> Int32Value 8000000,
                   OTHER_KEY ''rotation-degrees'' \<mapsto> Int32Value 90],
             Some [AMEDIAFORMAT_KEY_BIT_RATE \<mapsto> Int32Value 2000000,
                   AMEDIAFORMAT_KEY_OPERATING_RATE \<mapsto> FloatValue (Float 1123024896 120),
                   OTHER_KEY ''language'' \<mapsto> StringValue ''en'']]
            (Some 0) (Some 1)) = Some 2
   \<and> merged_format
        [AMEDIAFORMAT_KEY_BIT_RATE \<mapsto> Int32Value 8000000,
         OTHER_KEY ''rotation-degrees'' \<mapsto> Int32Value 90]
        [AMEDIAFORMAT_KEY_BIT_RATE \<mapsto> Int32Value 2000000,
         AMEDIAFORMAT_KEY_OPERATING_RATE \<mapsto> FloatValue (Float 1123024896 120),
         OTHER_KEY ''language'' \<mapsto> StringValue ''en''] AMEDIAFORMAT_KEY_BIT_RATE
     = Some (Int32Value 2000000)
   \<and> merged_format
        [AMEDIAFORMAT_KEY_BIT_RATE \<mapsto> Int32Value 8000000,
         OTHER_KEY ''rotation-degrees'' \<mapsto> Int32Value 90]
        [AMEDIAFORMAT_KEY_BIT_RATE \<mapsto> Int32Value 2000000,
         AMEDIAFORMAT_KEY_OPERATING_RATE \<mapsto> FloatValue (Float 1123024896 120),
         OTHER_KEY ''language'' \<mapsto> StringValue ''en''] AMEDIAFORMAT_KEY_OPERATING_RATE
     = Some (Int32Value 120)
   \<and> merged_format
        [AMEDIAFORMAT_KEY_BIT_RATE \<mapsto> Int32Value 8000000,
         OTHER_KEY ''rotation-degrees'' \<mapsto> Int32Value 90]
        [AMEDIAFORMAT_KEY_BIT_RATE \<mapsto> Int32Value 2000000,
         AMEDIAFORMAT_KEY_OPERATING_RATE \<mapsto> FloatValue (Float 1123024896 120),
         OTHER_KEY ''language'' \<mapsto> StringValue ''en''] (OTHER_KEY ''rotation-degrees'')
     = Some (Int32Value 90)
   \<and> merged_format
        [AMEDIAFORMAT_KEY_BIT_RATE \<mapsto> Int32Value 8000000,
         OTHER_KEY ''rotation-degrees'' \<mapsto> Int32Value 90]
        [AMEDIAFORMAT_KEY_BIT_RATE \<mapsto> Int32Value 2000000,
         AMEDIAFORMAT_KEY_OPERATING_RATE \<mapsto> FloatValue (Float 1123024896 120),
         OTHER_KEY ''language'' \<mapsto> StringValue ''en''] (OTHER_KEY ''language'')
     = None"
proof -
  let ?fb = "[AMEDIAFORMAT_KEY_BIT_RATE \<mapsto> Int32Value 8000000,
              OTHER_KEY ''rotation-degrees'' \<mapsto> Int32Value 90]"
  let ?fo = "[AMEDIAFORMAT_KEY_BIT_RATE \<mapsto> Int32Value 2000000,
              AMEDIAFORMAT_KEY_OPERATING_RATE \<mapsto> FloatValue (Float 1123024896 120),
              OTHER_KEY ''language'' \<mapsto> StringValue ''en'']"
  have b: "deref [Some ?fb, Some ?fo] 0 = Some ?fb" and o: "deref [Some ?fb, Some ?fo] 1 = Some ?fo"
    by (simp_all add: deref_def)
  have k: "AMEDIAFORMAT_KEY_BIT_RATE \<in> allow_list" "OTHER_KEY ''language'' \<notin> allow_list"
    "OTHER_KEY ''rotation-degrees'' \<notin> allow_list"
    "?fo AMEDIAFORMAT_KEY_BIT_RATE = Some (Int32Value 2000000)"
    "?fo AMEDIAFORMAT_KEY_OPERATING_RATE = Some (FloatValue (Float 1123024896 120))"
    "?fb (OTHER_KEY ''language'') = None"
    "?fb (OTHER_KEY ''rotation-degrees'') = Some (Int32Value 90)"
    by (simp_all add: allow_list_def)
  from mergeMediaFormats_allow_list[of "[Some ?fb, Some ?fo]" None None 0 ?fb 1 ?fo] b o k
  show ?thesis by simp
qed

section \<open>The session of the scenario, evaluated\<close>

lemma demo_source_eq:
  "demo_source =
     \<lparr> mCallbacks = [], mSampleReader = Some demo_reader, mSampleWriter = None,
       mSourceTrackFormats = [0, 1], mTrackTranscoders = [], mTracksAdded = {},
       mCancelled = False, mCallbackSent = False,
       store = demo_store, calls = [], asyncCancelThreads = 0 \<rparr>"
  by (simp add: demo_source_def configureSource_def create_def demo_reader_def)

lemma demo_merge:
  "mergeMediaFormats demo_store (Some 1) (Some 2)
   = (demo_store @ [Some (merged_format
         [AMEDIAFORMAT_KEY_MIME \<mapsto> StringValue ''video/avc'',
          AMEDIAFORMAT_KEY_BIT_RATE \<mapsto> Int32Value 8000000]
         [AMEDIAFORMAT_KEY_BIT_RATE \<mapsto> Int32Value 2000000])], Some 4)"
  using merge_live[of demo_store 1 _ 2 _] by (simp add: demo_store_def deref_def)

lemma demo_tracks_eq:
  "demo_tracks =
     \<lparr> mCallbacks = [], mSampleReader = Some (demo_reader\<lparr>rd_selected := [0, 1]\<rparr>),
       mSampleWriter = None,
       mSourceTrackFormats = [0, 1],
       mTrackTranscoders =
         [\<lparr>tc_kind = PassthroughTrackTranscoder, tc_trackIndex = 0, tc_format = None,
           tc_start = True\<rparr>,
          \<lparr>tc_kind = VideoTrackTranscoder, tc_trackIndex = 1, tc_format = Some 4,
           tc_start = True\<rparr>],
       mTracksAdded = {},
       mCancelled = False, mCallbackSent = False,
       store = demo_store @ [Some (merged_format
         [AMEDIAFORMAT_KEY_MIME \<mapsto> StringValue ''video/avc'',
          AMEDIAFORMAT_KEY_BIT_RATE \<mapsto> Int32Value 8000000]
         [AMEDIAFORMAT_KEY_BIT_RATE \<mapsto> Int32Value 2000000])],
       calls = [], asyncCancelThreads = 0 \<rparr>"
proof -
  have g: "AMediaFormat_getString demo_store (Suc 0) AMEDIAFORMAT_KEY_MIME = Some ''video/avc''"
    "AMediaFormat_getString demo_store 2 AMEDIAFORMAT_KEY_MIME = None"
    by (simp_all add: AMediaFormat_getString_def AMediaFormat_get_def deref_def typed_get_def
          demo_store_def)
  have m: "mergeMediaFormats demo_store (Some (Suc 0)) (Some 2)
   = (demo_store @ [Some (merged_format
         [AMEDIAFORMAT_KEY_MIME \<mapsto> StringValue ''video/avc'',
          AMEDIAFORMAT_KEY_BIT_RATE \<mapsto> Int32Value 8000000]
         [AMEDIAFORMAT_KEY_BIT_RATE \<mapsto> Int32Value 2000000])], Some 4)"
    using demo_merge by simp
  show ?thesis
    by (simp add: demo_tracks_def demo_source_eq configureTrackFormat_def selectTrack_def
          register_transcoder_def demo_reader_def demo_answers_def g m not_video_def Let_def)
qed

lemma demo_session_eq:
  "demo_session = demo_tracks\<lparr>mSampleWriter := Some demo_writer\<rparr>"
  by (simp add: demo_session_def configureDestination_def demo_tracks_eq demo_writer_def)

lemma demo_no_mime_eq:
  "demo_no_mime =
     \<lparr> mCallbacks = [],
       mSampleReader = Some (demo_reader\<lparr>rd_trackFormats := [Some 2]\<rparr>),
       mSampleWriter = None,
       mSourceTrackFormats = [2], mTrackTranscoders = [], mTracksAdded = {},
       mCancelled = False, mCallbackSent = False,
       store = demo_store, calls = [], asyncCancelThreads = 0 \<rparr>"
  by (simp add: demo_no_mime_def configureSource_def create_def demo_reader_def)

lemma demo_mimes:
  "AMediaFormat_getString demo_store 0 AMEDIAFORMAT_KEY_MIME = Some ''audio/mp4a-latm''"
  "AMediaFormat_getString demo_store (Suc 0) AMEDIAFORMAT_KEY_MIME = Some ''video/avc''"
  "AMediaFormat_getString demo_store 2 AMEDIAFORMAT_KEY_MIME = None"
  "AMediaFormat_getString demo_store 3 AMEDIAFORMAT_KEY_MIME = Some ''audio/aac''"
  by (simp_all add: AMediaFormat_getString_def AMediaFormat_get_def deref_def typed_get_def
        demo_store_def)

lemma demo_failing_start_eq:
  "demo_failing_start =
     \<lparr> mCallbacks = [], mSampleReader = Some (demo_reader\<lparr>rd_selected := [0, 1]\<rparr>),
       mSampleWriter = Some demo_writer,
       mSourceTrackFormats = [0, 1],
       mTrackTranscoders =
         [\<lparr>tc_kind = PassthroughTrackTranscoder, tc_trackIndex = 0, tc_format = None,
           tc_start = True\<rparr>,
          \<lparr>tc_kind = PassthroughTrackTranscoder, tc_trackIndex = 1, tc_format = None,
           tc_start = False\<rparr>],
       mTracksAdded = {},
       mCancelled = False, mCallbackSent = False,
       store = demo_store, calls = [], asyncCancelThreads = 0 \<rparr>"
  by (simp add: demo_failing_start_def demo_source_eq configureTrackFormat_def selectTrack_def
        register_transcoder_def demo_reader_def demo_answers_def configureDestination_def
        demo_writer_def Let_def)

lemma demo_destination_only_eq:
  "demo_destination_only = (create demo_store)\<lparr>mSampleWriter := Some demo_writer\<rparr>"
  by (simp add: demo_destination_only_def configureDestination_def create_def demo_writer_def)

lemma demo_started_eq:
  "demo_started = demo_session\<lparr>calls := [TranscoderStart 0, TranscoderStart 1]\<rparr>"
  by (simp add: demo_started_def start_def demo_session_eq demo_tracks_eq)

lemma demo_cancelled_eq:
  "demo_cancelled
   = demo_session
       \<lparr>mCancelled := True,
         mSampleReader := Some (demo_reader\<lparr>rd_selected := [0, 1], rd_sequential := False\<rparr>),
         calls := [TranscoderStart 0, TranscoderStart 1, WriterStop,
                   ReaderSetEnforceSequentialAccess False, TranscoderStop 0, TranscoderStop 1]\<rparr>"
  by (simp add: demo_cancelled_def demo_started_eq cancel_def demo_session_eq demo_tracks_eq
        setEnforceSequentialAccess_def Let_def upt_rec)

section \<open>Copies of the source formats\<close>

lemma copy_one:
  "AMediaFormat_copy (h @ [Some Map.empty]) (length h) a = (h2, st)
   \<Longrightarrow> h2 = h @ [copied_format h a]"
  by (auto simp: AMediaFormat_copy_def deref_def copied_format_def nth_append
           split: option.splits if_splits)

lemma copied_format_append:
  "a < length h \<Longrightarrow> copied_format (h @ h') a = copied_format h a"
  by (simp add: copied_format_def deref_def nth_append)

lemma copy_track_formats_eq:
  "\<forall>a\<in>set srcs. a < length h \<Longrightarrow>
   copy_track_formats h srcs
   = (h @ map (copied_format h) srcs, [length h ..< length h + length srcs])"
proof (induction srcs arbitrary: h)
  case Nil
  then show ?case by simp
next
  case (Cons a srcs)
  obtain h2 st where c: "AMediaFormat_copy (h @ [Some Map.empty]) (length h) a = (h2, st)"
    by (cases "AMediaFormat_copy (h @ [Some Map.empty]) (length h) a")
  then have h2: "h2 = h @ [copied_format h a]" by (rule copy_one)
  have "\<forall>x\<in>set srcs. x < length h2" using Cons.prems h2 by auto
  from Cons.IH[OF this]
  have "copy_track_formats h2 srcs
        = (h2 @ map (copied_format h2) srcs, [length h2 ..< length h2 + length srcs])" .
  moreover have "map (copied_format h2) srcs = map (copied_format h) srcs"
    using Cons.prems h2 by (simp add: copied_format_append)
  moreover have "[length h ..< length h + length (a # srcs)]
                 = length h # [length h2 ..< length h2 + length srcs]"
    using h2 upt_conv_Cons[of "length h" "length h + length (a # srcs)"] by simp
  ultimately show ?case
    using c h2 by (simp add: AMediaFormat_new_def del: upt_Suc)

qed

lemma getTrackFormats_eq:
  assumes "\<forall>a\<in>set (mSourceTrackFormats s). a < length (store s)"
  shows "getTrackFormats s
         = (s\<lparr>store := store s @ map (copied_format (store s)) (mSourceTrackFormats s)\<rparr>,
            [length (store s) ..< length (store s) + length (mSourceTrackFormats s)])"
  by (simp add: getTrackFormats_def copy_track_formats_eq[OF assms])

lemma deref_copies:
  assumes "\<forall>a\<in>set srcs. a < length h" "\<forall>a\<in>set srcs. deref h' a = deref h a"
    "\<forall>a\<in>set srcs. deref h a \<noteq> None"
  shows "map (deref (h' @ map (copied_format h') srcs)) [length h' ..< length h' + length srcs]
         = map (deref h) srcs"
proof (rule nth_equalityI)
  show "length (map (deref (h' @ map (copied_format h') srcs))
                    [length h' ..< length h' + length srcs]) = length (map (deref h) srcs)"
    by simp
next
  fix i
  assume "i < length (map (deref (h' @ map (copied_format h') srcs))
                         [length h' ..< length h' + length srcs])"
  then have i: "i < length srcs" by simp
  then have mem: "srcs ! i \<in> set srcs" by simp
  from assms(3) mem obtain f where f: "deref h (srcs ! i) = Some f" by auto
  then have "copied_format h' (srcs ! i) = Some f"
    using assms(2) mem by (simp add: copied_format_def)
  then show "map (deref (h' @ map (copied_format h') srcs))
               [length h' ..< length h' + length srcs] ! i = map (deref h) srcs ! i"
    using i f by (simp add: deref_def nth_append)
qed

lemma live_bound: "deref h a \<noteq> None \<Longrightarrow> a < length h"
  by (simp add: deref_def split: if_splits)

text \<open>
  C9. When the captured source formats are live objects of the store,
  \<^verbatim>\<open>getTrackFormats\<close> returns one new object per source format, with the contents of that
  source format, at addresses that are pairwise different and are not addresses of the
  session's own formats; the call changes nothing of the session but the store, where it
  only appends. So whatever the caller then does to the returned objects (\<open>h\<close> is any
  store that differs from the store after the call at returned addresses only), the
  session's source formats still read as before, and a second call of
  \<^verbatim>\<open>getTrackFormats\<close> returns objects with the contents of the source formats again.
\<close>

theorem getTrackFormats_deep_copy:
  assumes live: "\<forall>a\<in>set (mSourceTrackFormats s). deref (store s) a \<noteq> None"
      and first: "getTrackFormats s = (s1, fs)"
      and mut: "length h = length (store s1)"
               "\<forall>a<length h. a \<notin> set fs \<longrightarrow> h ! a = store s1 ! a"
      and second: "getTrackFormats (s1\<lparr>store := h\<rparr>) = (s2, fs2)"
  shows "length fs = length (mSourceTrackFormats s)
       \<and> map (deref (store s1)) fs = map (deref (store s)) (mSourceTrackFormats s)
       \<and> distinct fs
       \<and> set fs \<inter> set (mSourceTrackFormats s) = {}
       \<and> s1 = s\<lparr>store := store s1\<rparr>
       \<and> (\<forall>a<length (store s). store s1 ! a = store s ! a)
       \<and> mSourceTrackFormats (s1\<lparr>store := h\<rparr>) = mSourceTrackFormats s
       \<and> map (deref h) (mSourceTrackFormats s) = map (deref (store s)) (mSourceTrackFormats s)
       \<and> map (deref (store s2)) fs2 = map (deref (store s)) (mSourceTrackFormats s)"
proof -
  let ?srcs = "mSourceTrackFormats s"
  let ?n = "length (store s)"
  have bound: "\<forall>a\<in>set ?srcs. a < ?n" using live live_bound by blast
  from first getTrackFormats_eq[OF bound]
  have s1: "s1 = s\<lparr>store := store s @ map (copied_format (store s)) ?srcs\<rparr>"
    and fs: "fs = [?n ..< ?n + length ?srcs]" by simp_all
  have st1: "store s1 = store s @ map (copied_format (store s)) ?srcs" using s1 by simp
  have old: "\<forall>a<?n. h ! a = store s ! a"
    using mut st1 fs by (simp add: nth_append)
  have len: "?n \<le> length h" using mut(1) st1 by simp
  have same: "\<forall>a\<in>set ?srcs. deref h a = deref (store s) a"
    using bound old len by (auto simp: deref_def)
  have bound2: "\<forall>a\<in>set (mSourceTrackFormats (s1\<lparr>store := h\<rparr>)).
                  a < length (store (s1\<lparr>store := h\<rparr>))"
    using bound len s1 by auto
  from second getTrackFormats_eq[OF bound2]
  have st2: "store s2 = h @ map (copied_format h) ?srcs"
    and fs2: "fs2 = [length h ..< length h + length ?srcs]"
    using s1 by auto
  have c1: "map (deref (store s1)) fs = map (deref (store s)) ?srcs"
    unfolding st1 fs using bound live by (intro deref_copies) simp_all
  have c2: "map (deref (store s2)) fs2 = map (deref (store s)) ?srcs"
    unfolding st2 fs2 using bound same live by (intro deref_copies) simp_all
  have disj: "set fs \<inter> set ?srcs = {}" using fs bound by auto
  show ?thesis
    using c1 c2 disj same s1 fs st1 by (simp add: nth_append)
qed

lemma demo_formats:
  "getTrackFormats demo_source
   = (demo_source\<lparr>store := demo_store @ map (copied_format demo_store) [0, 1]\<rparr>, [4, 5])"
proof -
  have "\<forall>a\<in>set (mSourceTrackFormats demo_source). a < length (store demo_source)"
    by (simp add: demo_source_eq demo_store_def)
  from getTrackFormats_eq[OF this] show ?thesis
    by (simp add: demo_source_eq demo_store_def)
qed

theorem getTrackFormats_deep_copy_witness:
  "mSourceTrackFormats demo_source = [0, 1]
   \<and> deref (store demo_source) 0 \<noteq> None \<and> deref (store demo_source) 1 \<noteq> None
   \<and> snd (getTrackFormats demo_source) = [4, 5]
   \<and> map (deref (store (fst (getTrackFormats
           ((fst (getTrackFormats demo_source))
              \<lparr>store := (store (fst (getTrackFormats demo_source)))
                   [4 := Some [AMEDIAFORMAT_KEY_MIME \<mapsto> StringValue ''text/plain'']]\<rparr>)))))
         (snd (getTrackFormats
           ((fst (getTrackFormats demo_source))
              \<lparr>store := (store (fst (getTrackFormats demo_source)))
                   [4 := Some [AMEDIAFORMAT_KEY_MIME \<mapsto> StringValue ''text/plain'']]\<rparr>)))
     = map (deref (store demo_source)) (mSourceTrackFormats demo_source)"
proof -
  let ?s1 = "fst (getTrackFormats demo_source)"
  let ?h = "(store ?s1)[4 := Some [AMEDIAFORMAT_KEY_MIME \<mapsto> StringValue ''text/plain'']]"
  let ?m = "?s1\<lparr>store := ?h\<rparr>"
  have live: "\<forall>a\<in>set (mSourceTrackFormats demo_source). deref (store demo_source) a \<noteq> None"
    by (simp add: demo_source_eq demo_store_def deref_def)
  have first: "getTrackFormats demo_source = (?s1, snd (getTrackFormats demo_source))"
    by simp
  have mut: "length ?h = length (store ?s1)"
    "\<forall>a<length ?h. a \<notin> set (snd (getTrackFormats demo_source)) \<longrightarrow> ?h ! a = store ?s1 ! a"
    by (simp_all add: demo_formats)
  have second: "getTrackFormats ?m = (fst (getTrackFormats ?m), snd (getTrackFormats ?m))"
    by simp
  have src: "mSourceTrackFormats demo_source = [0, 1]" by (simp add: demo_source_eq)
  from getTrackFormats_deep_copy[OF live first mut second] live src
  show ?thesis by (simp add: demo_formats)
qed

section \<open>The checks of configureTrackFormat\<close>

lemma register_transcoder_status:
  "snd (register_transcoder s i kind format answers) = ans_configure answers"
  by (simp add: register_transcoder_def Let_def split: option.splits)

lemma register_transcoder_ok:
  "ans_configure answers = AMEDIA_OK \<Longrightarrow>
   register_transcoder s i kind format answers
   = (s\<lparr>mTrackTranscoders := mTrackTranscoders s
          @ [\<lparr>tc_kind = kind, tc_trackIndex = i, tc_format = format,
              tc_start = ans_start answers\<rparr>]\<rparr>, AMEDIA_OK)"
  by (simp add: register_transcoder_def)

lemma configureTrackFormat_passthrough:
  assumes "mSampleReader s = Some r" "i < length (mSourceTrackFormats s)"
    "rd_selectTrack r i = AMEDIA_OK"
  shows "configureTrackFormat s i None answers
         = register_transcoder
             (s\<lparr>mSampleReader := Some (r\<lparr>rd_selected := rd_selected r @ [i]\<rparr>)\<rparr>)
             i PassthroughTrackTranscoder None answers"
  using assms by (simp add: configureTrackFormat_def selectTrack_def)

text \<open>
  C7. \<^verbatim>\<open>configureTrackFormat\<close> returns \<^verbatim>\<open>AMEDIA_ERROR_INVALID_OPERATION\<close> when the
  reader is null, and \<^verbatim>\<open>AMEDIA_ERROR_INVALID_PARAMETER\<close> when the reader is there and the
  index is not below the number of captured source formats; both leave the session as it
  was. For an index in range that the reader selects: with an override, the status is
  \<^verbatim>\<open>AMEDIA_ERROR_MALFORMED\<close> when the source format has no mime string, and
  \<^verbatim>\<open>AMEDIA_ERROR_UNSUPPORTED\<close> when the source mime does not start with \<^verbatim>\<open>video/\<close> or
  the override has a mime string that does not start with \<^verbatim>\<open>video/\<close>; without an
  override no mime type is looked at: the call goes on to configure a passthrough
  transcoder, returns that transcoder's status, and registers the transcoder when the
  status is \<^verbatim>\<open>AMEDIA_OK\<close>.
\<close>

theorem configureTrackFormat_errors:
  "(mSampleReader s = None \<longrightarrow>
      configureTrackFormat s i tf answers = (s, AMEDIA_ERROR_INVALID_OPERATION))
   \<and> (mSampleReader s \<noteq> None \<longrightarrow> length (mSourceTrackFormats s) \<le> i \<longrightarrow>
      configureTrackFormat s i tf answers = (s, AMEDIA_ERROR_INVALID_PARAMETER))
   \<and> (mSampleReader s = Some r \<longrightarrow> i < length (mSourceTrackFormats s) \<longrightarrow>
      rd_selectTrack r i = AMEDIA_OK \<longrightarrow>
        (AMediaFormat_getString (store s) (mSourceTrackFormats s ! i) AMEDIAFORMAT_KEY_MIME = None
           \<longrightarrow> snd (configureTrackFormat s i (Some ov) answers) = AMEDIA_ERROR_MALFORMED)
      \<and> (AMediaFormat_getString (store s) (mSourceTrackFormats s ! i) AMEDIAFORMAT_KEY_MIME
             = Some srcMime \<longrightarrow> not_video srcMime
           \<longrightarrow> snd (configureTrackFormat s i (Some ov) answers) = AMEDIA_ERROR_UNSUPPORTED)
      \<and> (AMediaFormat_getString (store s) (mSourceTrackFormats s ! i) AMEDIAFORMAT_KEY_MIME
             = Some srcMime \<longrightarrow>
          AMediaFormat_getString (store s) ov AMEDIAFORMAT_KEY_MIME = Some dstMime \<longrightarrow>
          not_video dstMime
           \<longrightarrow> snd (configureTrackFormat s i (Some ov) answers) = AMEDIA_ERROR_UNSUPPORTED)
      \<and> snd (configureTrackFormat s i None answers) = ans_configure answers
      \<and> (ans_configure answers = AMEDIA_OK \<longrightarrow>
            configureTrackFormat s i None answers
            = (s\<lparr>mSampleReader := Some (r\<lparr>rd_selected := rd_selected r @ [i]\<rparr>),
                  mTrackTranscoders := mTrackTranscoders s
                    @ [\<lparr>tc_kind = PassthroughTrackTranscoder, tc_trackIndex = i,
                        tc_format = None, tc_start = ans_start answers\<rparr>]\<rparr>,
               AMEDIA_OK)))"
proof (intro conjI impI)
  assume "mSampleReader s = None"
  then show "configureTrackFormat s i tf answers = (s, AMEDIA_ERROR_INVALID_OPERATION)"
    by (simp add: configureTrackFormat_def)
next
  assume "mSampleReader s \<noteq> None" "length (mSourceTrackFormats s) \<le> i"
  then show "configureTrackFormat s i tf answers = (s, AMEDIA_ERROR_INVALID_PARAMETER)"
    by (auto simp: configureTrackFormat_def)
next
  assume a: "mSampleReader s = Some r" "i < length (mSourceTrackFormats s)"
    "rd_selectTrack r i = AMEDIA_OK"
  {
    assume "AMediaFormat_getString (store s) (mSourceTrackFormats s ! i) AMEDIAFORMAT_KEY_MIME
            = None"
    with a show "snd (configureTrackFormat s i (Some ov) answers) = AMEDIA_ERROR_MALFORMED"
      by (simp add: configureTrackFormat_def selectTrack_def)
  next
    assume "AMediaFormat_getString (store s) (mSourceTrackFormats s ! i) AMEDIAFORMAT_KEY_MIME
            = Some srcMime" "not_video srcMime"
    with a show "snd (configureTrackFormat s i (Some ov) answers) = AMEDIA_ERROR_UNSUPPORTED"
      by (simp add: configureTrackFormat_def selectTrack_def)
  next
    assume "AMediaFormat_getString (store s) (mSourceTrackFormats s ! i) AMEDIAFORMAT_KEY_MIME
            = Some srcMime"
      "AMediaFormat_getString (store s) ov AMEDIAFORMAT_KEY_MIME = Some dstMime"
      "not_video dstMime"
    with a show "snd (configureTrackFormat s i (Some ov) answers) = AMEDIA_ERROR_UNSUPPORTED"
      by (simp add: configureTrackFormat_def selectTrack_def Let_def)
  next
    show "snd (configureTrackFormat s i None answers) = ans_configure answers"
      by (simp add: configureTrackFormat_passthrough[OF a] register_transcoder_status)
  next
    assume "ans_configure answers = AMEDIA_OK"
    then show "configureTrackFormat s i None answers
            = (s\<lparr>mSampleReader := Some (r\<lparr>rd_selected := rd_selected r @ [i]\<rparr>),
                  mTrackTranscoders := mTrackTranscoders s
                    @ [\<lparr>tc_kind = PassthroughTrackTranscoder, tc_trackIndex = i,
                        tc_format = None, tc_start = ans_start answers\<rparr>]\<rparr>,
               AMEDIA_OK)"
      by (simp add: configureTrackFormat_passthrough[OF a] register_transcoder_ok)
  }
qed

theorem configureTrackFormat_errors_witness:
  "mSampleReader (create demo_store) = None
   \<and> configureTrackFormat (create demo_store) 0 None demo_answers
       = (create demo_store, AMEDIA_ERROR_INVALID_OPERATION)
   \<and> mSampleReader demo_source = Some demo_reader
   \<and> length (mSourceTrackFormats demo_source) \<le> 2
   \<and> configureTrackFormat demo_source 2 None demo_answers
       = (demo_source, AMEDIA_ERROR_INVALID_PARAMETER)
   \<and> snd (configureTrackFormat demo_no_mime 0 (Some 2) demo_answers) = AMEDIA_ERROR_MALFORMED
   \<and> not_video ''audio/mp4a-latm''
   \<and> snd (configureTrackFormat demo_source 0 (Some 2) demo_answers) = AMEDIA_ERROR_UNSUPPORTED
   \<and> not_video ''audio/aac''
   \<and> snd (configureTrackFormat demo_source 1 (Some 3) demo_answers) = AMEDIA_ERROR_UNSUPPORTED
   \<and> snd (configureTrackFormat demo_source 0 None demo_answers) = AMEDIA_OK"
proof -
  have r0: "mSampleReader (create demo_store) = None" by (simp add: create_def)
  have r1: "mSampleReader demo_source = Some demo_reader"
    "length (mSourceTrackFormats demo_source) = 2" "store demo_source = demo_store"
    "mSourceTrackFormats demo_source ! 0 = 0" "mSourceTrackFormats demo_source ! 1 = 1"
    by (simp_all add: demo_source_eq)
  have r2: "mSampleReader demo_no_mime = Some (demo_reader\<lparr>rd_trackFormats := [Some 2]\<rparr>)"
    "length (mSourceTrackFormats demo_no_mime) = 1" "store demo_no_mime = demo_store"
    "mSourceTrackFormats demo_no_mime ! 0 = 2"
    by (simp_all add: demo_no_mime_eq)
  have sel: "rd_selectTrack demo_reader i = AMEDIA_OK"
    "rd_selectTrack (demo_reader\<lparr>rd_trackFormats := [Some 2]\<rparr>) i = AMEDIA_OK" for i
    by (simp_all add: demo_reader_def)
  have nv: "not_video ''audio/mp4a-latm''" "not_video ''audio/aac''"
    by (simp_all add: not_video_def)
  have ok: "ans_configure demo_answers = AMEDIA_OK" by (simp add: demo_answers_def)
  note t = configureTrackFormat_errors
  from t[of "create demo_store" 0 None demo_answers] r0
  have w1: "configureTrackFormat (create demo_store) 0 None demo_answers
            = (create demo_store, AMEDIA_ERROR_INVALID_OPERATION)" by simp
  from t[of demo_source 2 None demo_answers] r1
  have w2: "configureTrackFormat demo_source 2 None demo_answers
            = (demo_source, AMEDIA_ERROR_INVALID_PARAMETER)" by simp
  from t[of demo_no_mime 0 _ demo_answers "demo_reader\<lparr>rd_trackFormats := [Some 2]\<rparr>" 2]
    r2 sel demo_mimes
  have w3: "snd (configureTrackFormat demo_no_mime 0 (Some 2) demo_answers)
            = AMEDIA_ERROR_MALFORMED" by simp
  from t[of demo_source 0 _ demo_answers demo_reader 2 "''audio/mp4a-latm''"]
    r1 sel demo_mimes nv ok
  have w4: "snd (configureTrackFormat demo_source 0 (Some 2) demo_answers)
            = AMEDIA_ERROR_UNSUPPORTED"
    and w6: "snd (configureTrackFormat demo_source 0 None demo_answers) = AMEDIA_OK"
    by simp_all
  from t[of demo_source 1 _ demo_answers demo_reader 3 "''video/avc''" "''audio/aac''"]
    r1 sel demo_mimes nv
  have w5: "snd (configureTrackFormat demo_source 1 (Some 3) demo_answers)
            = AMEDIA_ERROR_UNSUPPORTED" by simp
  from r0 r1 nv w1 w2 w3 w4 w5 w6 show ?thesis by simp
qed

section \<open>Starting and cancelling\<close>

lemma cancel_already: "mCancelled s \<Longrightarrow> cancel s = Inr (s, AMEDIA_OK)"
  by (simp add: cancel_def)

lemma cancel_configured:
  assumes "\<not> mCancelled s" "mSampleWriter s = Some w" "mSampleReader s = Some r"
  shows "cancel s
         = Inr (s\<lparr>mCancelled := True,
                   mSampleReader := Some (r\<lparr>rd_sequential := False\<rparr>),
                   calls := calls s @ stop_sequence s\<rparr>, AMEDIA_OK)"
  using assms
  by (simp add: cancel_def stop_sequence_def setEnforceSequentialAccess_def Let_def)

lemma cancel_null:
  assumes "\<not> mCancelled s" "mSampleWriter s = None \<or> mSampleReader s = None"
  shows "cancel s = Inl NullDereference"
  using assms by (auto simp: cancel_def Let_def split: option.splits)

lemma start_transcoders_all:
  "\<forall>t\<in>set ts. tc_start t \<Longrightarrow>
   start_transcoders s i ts
   = Inr (s\<lparr>calls := calls s @ map TranscoderStart [i ..< i + length ts]\<rparr>, AMEDIA_OK)"
proof (induction ts arbitrary: s i)
  case Nil
  then show ?case by simp
next
  case (Cons t ts)
  have "[i ..< i + length (t # ts)] = i # [Suc i ..< Suc i + length ts]"
    using upt_conv_Cons[of i "i + length (t # ts)"] by simp
  then show ?case using Cons by (simp del: upt_Suc)
qed

lemma start_transcoders_first_failure:
  assumes "k < length ts" "\<forall>j<k. tc_start (ts ! j)" "\<not> tc_start (ts ! k)"
  shows "start_transcoders s i ts
         = (case cancel (s\<lparr>calls := calls s @ map TranscoderStart [i ..< i + Suc k]\<rparr>) of
              Inl f \<Rightarrow> Inl f
            | Inr (s2, r) \<Rightarrow> Inr (s2, AMEDIA_ERROR_UNKNOWN))"
  using assms
proof (induction ts arbitrary: s i k)
  case Nil
  then show ?case by simp
next
  case (Cons t ts)
  show ?case
  proof (cases k)
    case 0
    then show ?thesis using Cons.prems by simp
  next
    case (Suc k')
    have t: "tc_start t" using Cons.prems(2) Suc by auto
    have "k' < length ts" "\<forall>j<k'. tc_start (ts ! j)" "\<not> tc_start (ts ! k')"
      using Cons.prems Suc by auto
    from Cons.IH[OF this, of "s\<lparr>calls := calls s @ [TranscoderStart i]\<rparr>" "Suc i"]
    have ih: "start_transcoders (s\<lparr>calls := calls s @ [TranscoderStart i]\<rparr>) (Suc i) ts
              = (case cancel (s\<lparr>calls := calls s @ [TranscoderStart i]
                                   @ map TranscoderStart [Suc i ..< Suc i + Suc k']\<rparr>) of
                   Inl f \<Rightarrow> Inl f
                 | Inr (s2, r) \<Rightarrow> Inr (s2, AMEDIA_ERROR_UNKNOWN))"
      by simp
    have "[i ..< i + Suc k] = i # [Suc i ..< Suc i + Suc k']"
      using upt_conv_Cons[of i "i + Suc k"] Suc by simp
    then show ?thesis using t ih by (simp del: upt_Suc)
  qed
qed

text \<open>
  C8. \<^verbatim>\<open>start\<close> returns \<^verbatim>\<open>AMEDIA_ERROR_INVALID_OPERATION\<close> and leaves the session and
  its collaborators untouched when no track is configured or the writer is null.
  Otherwise it starts the transcoders in list order: when all of them start it has
  called \<^verbatim>\<open>start\<close> on each, in order, and returns \<^verbatim>\<open>AMEDIA_OK\<close>; when transcoder \<open>k\<close>
  is the first that fails to start, it has called \<^verbatim>\<open>start\<close> on the transcoders up to
  \<open>k\<close> and on none after it, then calls \<^verbatim>\<open>cancel\<close>, and returns
  \<^verbatim>\<open>AMEDIA_ERROR_UNKNOWN\<close> once \<^verbatim>\<open>cancel\<close> has returned; it returns, with the stop
  sequence performed, whenever the source reader is there, as it is once a track has
  been configured.
\<close>

theorem start_errors:
  "(mTrackTranscoders s = [] \<or> mSampleWriter s = None \<longrightarrow>
      start s = Inr (s, AMEDIA_ERROR_INVALID_OPERATION))
   \<and> (mTrackTranscoders s \<noteq> [] \<longrightarrow> mSampleWriter s \<noteq> None \<longrightarrow>
        ((\<forall>t\<in>set (mTrackTranscoders s). tc_start t) \<longrightarrow>
           start s = Inr (s\<lparr>calls := calls s
                             @ map TranscoderStart [0 ..< length (mTrackTranscoders s)]\<rparr>,
                          AMEDIA_OK))
      \<and> (k < length (mTrackTranscoders s) \<longrightarrow>
         (\<forall>j<k. tc_start (mTrackTranscoders s ! j)) \<longrightarrow>
         \<not> tc_start (mTrackTranscoders s ! k) \<longrightarrow>
           start s = (case cancel (s\<lparr>calls := calls s @ map TranscoderStart [0 ..< Suc k]\<rparr>) of
                        Inl f \<Rightarrow> Inl f
                      | Inr (s2, r) \<Rightarrow> Inr (s2, AMEDIA_ERROR_UNKNOWN))
         \<and> (\<not> mCancelled s \<longrightarrow> mSampleReader s = Some rd \<longrightarrow>
               start s = Inr (s\<lparr>mCancelled := True,
                                 mSampleReader := Some (rd\<lparr>rd_sequential := False\<rparr>),
                                 calls := calls s @ map TranscoderStart [0 ..< Suc k]
                                            @ stop_sequence s\<rparr>,
                              AMEDIA_ERROR_UNKNOWN))))"
proof (intro conjI impI)
  assume "mTrackTranscoders s = [] \<or> mSampleWriter s = None"
  then show "start s = Inr (s, AMEDIA_ERROR_INVALID_OPERATION)"
    by (auto simp: start_def)
next
  assume c: "mTrackTranscoders s \<noteq> []" "mSampleWriter s \<noteq> None"
  then have st: "start s = start_transcoders s 0 (mTrackTranscoders s)"
    by (cases "mTrackTranscoders s") (auto simp: start_def)
  {
    assume "\<forall>t\<in>set (mTrackTranscoders s). tc_start t"
    from start_transcoders_all[OF this, of s 0] st
    show "start s = Inr (s\<lparr>calls := calls s
                             @ map TranscoderStart [0 ..< length (mTrackTranscoders s)]\<rparr>,
                          AMEDIA_OK)"
      by simp
  next
    assume k: "k < length (mTrackTranscoders s)" "\<forall>j<k. tc_start (mTrackTranscoders s ! j)"
      "\<not> tc_start (mTrackTranscoders s ! k)"
    from start_transcoders_first_failure[OF k, of s 0] st
    show f: "start s = (case cancel (s\<lparr>calls := calls s @ map TranscoderStart [0 ..< Suc k]\<rparr>) of
                        Inl f \<Rightarrow> Inl f
                      | Inr (s2, r) \<Rightarrow> Inr (s2, AMEDIA_ERROR_UNKNOWN))"
      by simp
    assume n: "\<not> mCancelled s" "mSampleReader s = Some rd"
    from c obtain w where w: "mSampleWriter s = Some w" by auto
    let ?s1 = "s\<lparr>calls := calls s @ map TranscoderStart [0 ..< Suc k]\<rparr>"
    have "cancel ?s1
          = Inr (?s1\<lparr>mCancelled := True,
                       mSampleReader := Some (rd\<lparr>rd_sequential := False\<rparr>),
                       calls := calls ?s1 @ stop_sequence ?s1\<rparr>, AMEDIA_OK)"
      using n w by (intro cancel_configured) simp_all
    with f show "start s = Inr (s\<lparr>mCancelled := True,
                                 mSampleReader := Some (rd\<lparr>rd_sequential := False\<rparr>),
                                 calls := calls s @ map TranscoderStart [0 ..< Suc k]
                                            @ stop_sequence s\<rparr>,
                              AMEDIA_ERROR_UNKNOWN)"
      by (simp add: stop_sequence_def)
  }
qed

theorem start_errors_witness:
  "mTrackTranscoders (create demo_store) = []
   \<and> start (create demo_store) = Inr (create demo_store, AMEDIA_ERROR_INVALID_OPERATION)
   \<and> mTrackTranscoders demo_tracks \<noteq> [] \<and> mSampleWriter demo_tracks = None
   \<and> start demo_tracks = Inr (demo_tracks, AMEDIA_ERROR_INVALID_OPERATION)
   \<and> mSampleWriter demo_session \<noteq> None
   \<and> map tc_start (mTrackTranscoders demo_session) = [True, True]
   \<and> start demo_session
       = Inr (demo_session\<lparr>calls := [TranscoderStart 0, TranscoderStart 1]\<rparr>, AMEDIA_OK)
   \<and> tc_start (mTrackTranscoders demo_failing_start ! 0)
   \<and> \<not> tc_start (mTrackTranscoders demo_failing_start ! 1)
   \<and> start demo_failing_start
       = Inr (demo_failing_start
                \<lparr>mCancelled := True,
                  mSampleReader := Some (demo_reader\<lparr>rd_selected := [0, 1], rd_sequential := False\<rparr>),
                  calls := [TranscoderStart 0, TranscoderStart 1, WriterStop,
                            ReaderSetEnforceSequentialAccess False,
                            TranscoderStop 0, TranscoderStop 1]\<rparr>,
              AMEDIA_ERROR_UNKNOWN)"
proof -
  note t = start_errors
  have a: "mTrackTranscoders (create demo_store) = []" by (simp add: create_def)
  have b: "mTrackTranscoders demo_tracks \<noteq> []" "mSampleWriter demo_tracks = None"
    by (simp_all add: demo_tracks_eq)
  have c: "mTrackTranscoders demo_session \<noteq> []" "mSampleWriter demo_session \<noteq> None"
    "\<forall>t\<in>set (mTrackTranscoders demo_session). tc_start t"
    "length (mTrackTranscoders demo_session) = 2" "calls demo_session = []"
    "map tc_start (mTrackTranscoders demo_session) = [True, True]"
    by (simp_all add: demo_session_eq demo_tracks_eq)
  have d: "mTrackTranscoders demo_failing_start \<noteq> []" "mSampleWriter demo_failing_start \<noteq> None"
    "1 < length (mTrackTranscoders demo_failing_start)"
    "\<forall>j<1. tc_start (mTrackTranscoders demo_failing_start ! j)"
    "tc_start (mTrackTranscoders demo_failing_start ! 0)"
    "\<not> tc_start (mTrackTranscoders demo_failing_start ! 1)"
    "\<not> mCancelled demo_failing_start"
    "mSampleReader demo_failing_start = Some (demo_reader\<lparr>rd_selected := [0, 1]\<rparr>)"
    "calls demo_failing_start = []"
    "stop_sequence demo_failing_start
     = [WriterStop, ReaderSetEnforceSequentialAccess False, TranscoderStop 0, TranscoderStop 1]"
    by (simp_all add: demo_failing_start_eq stop_sequence_def)
  have u: "[0 ..< 2] = [0, Suc 0]" "[0 ..< Suc 1] = [0, Suc 0]" by (simp_all add: upt_rec)
  from t[of "create demo_store"] a
  have w1: "start (create demo_store) = Inr (create demo_store, AMEDIA_ERROR_INVALID_OPERATION)"
    by simp
  from t[of demo_tracks] b
  have w2: "start demo_tracks = Inr (demo_tracks, AMEDIA_ERROR_INVALID_OPERATION)" by simp
  from t[of demo_session] c u
  have w3: "start demo_session
            = Inr (demo_session\<lparr>calls := [TranscoderStart 0, TranscoderStart 1]\<rparr>, AMEDIA_OK)"
    by simp
  note t4 = t[of demo_failing_start 1 "demo_reader\<lparr>rd_selected := [0, 1]\<rparr>",
               THEN conjunct2, THEN mp, OF d(1), THEN mp, OF d(2), THEN conjunct2,
               THEN mp, OF d(3), THEN mp, OF d(4), THEN mp, OF d(6), THEN conjunct2,
               THEN mp, OF d(7), THEN mp, OF d(8)]
  from t4 d u
  have w4: "start demo_failing_start
       = Inr (demo_failing_start
                \<lparr>mCancelled := True,
                  mSampleReader := Some (demo_reader\<lparr>rd_selected := [0, 1], rd_sequential := False\<rparr>),
                  calls := [TranscoderStart 0, TranscoderStart 1, WriterStop,
                            ReaderSetEnforceSequentialAccess False,
                            TranscoderStop 0, TranscoderStop 1]\<rparr>,
              AMEDIA_ERROR_UNKNOWN)"
    by simp
  from a b c d w1 w2 w3 w4 show ?thesis by simp
qed

section \<open>Cancelling a session that is not configured\<close>

text \<open>
  C10. \<^verbatim>\<open>cancel\<close> calls \<^verbatim>\<open>stop\<close> through \<^verbatim>\<open>mSampleWriter\<close> and
  \<^verbatim>\<open>setEnforceSequentialAccess\<close> through \<^verbatim>\<open>mSampleReader\<close> without looking at either
  pointer. The first call of \<^verbatim>\<open>cancel\<close> on a session (the cancelled flag is still
  false) therefore dereferences a null pointer exactly when the writer or the reader is
  null, that is, when the destination or the source has not been configured; when both
  are there it returns \<^verbatim>\<open>AMEDIA_OK\<close>. \<^verbatim>\<open>pause\<close> does what \<^verbatim>\<open>cancel\<close> does.
\<close>

theorem cancel_null_dereference:
  "\<not> mCancelled s \<Longrightarrow>
     (cancel s = Inl NullDereference \<longleftrightarrow> mSampleWriter s = None \<or> mSampleReader s = None)
     \<and> (mSampleWriter s \<noteq> None \<and> mSampleReader s \<noteq> None
          \<longleftrightarrow> (\<exists>s'. cancel s = Inr (s', AMEDIA_OK)))
     \<and> pause s = cancel s"
proof -
  assume n: "\<not> mCancelled s"
  show ?thesis
  proof (cases "mSampleWriter s = None \<or> mSampleReader s = None")
    case True
    with n have "cancel s = Inl NullDereference" by (rule cancel_null)
    with True show ?thesis by (auto simp: pause_def)
  next
    case False
    then obtain w r where "mSampleWriter s = Some w" "mSampleReader s = Some r" by auto
    from cancel_configured[OF n this] False show ?thesis by (simp add: pause_def)
  qed
qed

theorem cancel_null_dereference_witness:
  "\<not> mCancelled (create demo_store)
   \<and> cancel (create demo_store) = Inl NullDereference
   \<and> pause (create demo_store) = Inl NullDereference
   \<and> \<not> mCancelled demo_source \<and> mSampleWriter demo_source = None
   \<and> cancel demo_source = Inl NullDereference
   \<and> \<not> mCancelled demo_destination_only \<and> mSampleReader demo_destination_only = None
   \<and> cancel demo_destination_only = Inl NullDereference
   \<and> \<not> mCancelled demo_session
   \<and> mSampleWriter demo_session \<noteq> None \<and> mSampleReader demo_session \<noteq> None
   \<and> (\<exists>s'. cancel demo_session = Inr (s', AMEDIA_OK))"
proof -
  note t = cancel_null_dereference
  have a: "\<not> mCancelled (create demo_store)" "mSampleWriter (create demo_store) = None"
    by (simp_all add: create_def)
  have b: "\<not> mCancelled demo_source" "mSampleWriter demo_source = None"
    by (simp_all add: demo_source_eq)
  have c: "\<not> mCancelled demo_destination_only" "mSampleReader demo_destination_only = None"
    by (simp_all add: demo_destination_only_eq create_def)
  have d: "\<not> mCancelled demo_session" "mSampleWriter demo_session \<noteq> None"
    "mSampleReader demo_session \<noteq> None"
    by (simp_all add: demo_session_eq demo_tracks_eq)
  from t[OF a(1)] a(2)
  have w1: "cancel (create demo_store) = Inl NullDereference"
    "pause (create demo_store) = Inl NullDereference" by simp_all
  from t[OF b(1)] b(2) have w2: "cancel demo_source = Inl NullDereference" by simp
  from t[OF c(1)] c(2) have w3: "cancel demo_destination_only = Inl NullDereference" by simp
  from t[OF d(1)] d(2,3) have w4: "\<exists>s'. cancel demo_session = Inr (s', AMEDIA_OK)" by blast
  from a b c d w1 w2 w3 w4 show ?thesis by simp
qed

section \<open>Terminal events after a cancel\<close>

lemma sendCallback_suppressed:
  "mCancelled s \<Longrightarrow> status \<noteq> AMEDIA_OK \<Longrightarrow> sendCallback s status = s"
  by (simp add: sendCallback_def)

lemma sendCallback_first:
  "\<not> mCallbackSent s \<Longrightarrow> \<not> (mCancelled s \<and> status \<noteq> AMEDIA_OK) \<Longrightarrow>
   sendCallback s status
   = s\<lparr>mCallbackSent := True, mCallbacks := mCallbacks s @ [client_call_of status],
        asyncCancelThreads := Suc (asyncCancelThreads s)\<rparr>"
  by (auto simp: sendCallback_def)

lemma sendCallback_later: "mCallbackSent s \<Longrightarrow> sendCallback s status = s"
  by (simp add: sendCallback_def)

lemma sendCallback_cancelled [simp]: "mCancelled (sendCallback s status) = mCancelled s"
  by (simp add: sendCallback_def)

lemma cancel_cancelled: "cancel s = Inr (s', r) \<Longrightarrow> mCancelled s'"
  by (auto simp: cancel_def Let_def split: if_splits option.splits)

lemma cancel_callbacks:
  "cancel s = Inr (s', r) \<Longrightarrow> mCallbacks s' = mCallbacks s \<and> mCallbackSent s' = mCallbackSent s"
  by (auto simp: cancel_def Let_def split: if_splits option.splits)

lemma start_transcoders_callbacks:
  "start_transcoders s i ts = Inr (s', r) \<Longrightarrow>
   mCallbacks s' = mCallbacks s \<and> mCallbackSent s' = mCallbackSent s
   \<and> (mCancelled s \<longrightarrow> mCancelled s')"
proof (induction ts arbitrary: s i)
  case Nil
  then show ?case by simp
next
  case (Cons t ts)
  show ?case
  proof (cases "tc_start t")
    case True
    with Cons.prems
    have "start_transcoders (s\<lparr>calls := calls s @ [TranscoderStart i]\<rparr>) (Suc i) ts = Inr (s', r)"
      by simp
    from Cons.IH[OF this] show ?thesis by simp
  next
    case False
    with Cons.prems obtain s2 r2
      where c: "cancel (s\<lparr>calls := calls s @ [TranscoderStart i]\<rparr>) = Inr (s2, r2)" and "s' = s2"
      by (auto split: sum.splits)
    with cancel_callbacks[OF c] cancel_cancelled[OF c] show ?thesis by simp
  qed
qed

lemma start_callbacks:
  "start s = Inr (s', r) \<Longrightarrow>
   mCallbacks s' = mCallbacks s \<and> mCallbackSent s' = mCallbackSent s
   \<and> (mCancelled s \<longrightarrow> mCancelled s')"
  using start_transcoders_callbacks[of s 0 "mTrackTranscoders s" s' r]
  by (auto simp: start_def split: if_splits)

lemma onTrackFormatAvailable_cancelled:
  assumes "mCancelled s" "onTrackFormatAvailable s t fmt = Inr s'"
  shows "mCallbacks s' = mCallbacks s \<and> mCallbackSent s' = mCallbackSent s \<and> mCancelled s'"
  using assms
  by (auto simp: onTrackFormatAvailable_def Let_def sendCallback_def
           split: if_splits option.splits)

lemma terminal_calls_sendCallback:
  "terminal_calls (sendCallback s status)
   = terminal_calls s
     @ (if \<not> mCallbackSent s \<and> \<not> (mCancelled s \<and> status \<noteq> AMEDIA_OK)
        then [client_call_of status] else [])"
  by (simp add: sendCallback_def terminal_calls_def client_call_of_def)

lemma sendCallback_sent:
  "mCallbackSent (sendCallback s status)
   = (mCallbackSent s \<or> \<not> (mCancelled s \<and> status \<noteq> AMEDIA_OK))"
  by (auto simp: sendCallback_def)

lemma handle_cancelled:
  assumes "mCancelled s" "handle s ev = Inr s'"
  shows "mCancelled s'
       \<and> terminal_calls s'
         = terminal_calls s
           @ (if \<not> mCallbackSent s \<and> terminal_status ev = Some AMEDIA_OK
              then [ClientFinished] else [])
       \<and> mCallbackSent s' = (mCallbackSent s \<or> terminal_status ev = Some AMEDIA_OK)"
proof (cases ev)
  case (TrackFormatAvailable t fmt)
  with assms onTrackFormatAvailable_cancelled[of s t fmt s'] show ?thesis
    by (simp add: terminal_calls_def)
next
  case (TrackError t status)
  with assms show ?thesis
    by (auto simp: onTrackError_def terminal_calls_sendCallback sendCallback_sent
          client_call_of_def)
next
  case (WriterFinished status)
  with assms show ?thesis
    by (auto simp: onFinished_def terminal_calls_sendCallback sendCallback_sent
          client_call_of_def)
next
  case CancelCall
  with assms show ?thesis
    by (auto simp: dropping_status_def cancel_already)
next
  case StartCall
  with assms obtain r where "start s = Inr (s', r)"
    by (auto simp: dropping_status_def split: sum.splits)
  from start_callbacks[OF this] assms(1) show ?thesis
    using StartCall by (simp add: terminal_calls_def)
next
  case PauseCall
  with assms show ?thesis
    by (auto simp: dropping_status_def pause_def cancel_already)
next
  case ResumeCall
  with assms obtain r where "start s = Inr (s', r)"
    by (auto simp: dropping_status_def resume_def split: sum.splits)
  from start_callbacks[OF this] assms(1) show ?thesis
    using ResumeCall by (simp add: terminal_calls_def)
qed (use assms in \<open>auto simp: onTrackFinished_def onProgressUpdate_def terminal_calls_def\<close>)

lemma run_cancelled:
  assumes "mCancelled s" "run s evs = Inr s'"
  shows "terminal_calls s'
         = terminal_calls s
           @ (if \<not> mCallbackSent s \<and> Some AMEDIA_OK \<in> terminal_status ` set evs
              then [ClientFinished] else [])"
  using assms
proof (induction evs arbitrary: s)
  case Nil
  then show ?case by simp
next
  case (Cons ev evs)
  from Cons.prems(2) obtain s1 where h: "handle s ev = Inr s1" and r: "run s1 evs = Inr s'"
    by (auto split: sum.splits)
  from handle_cancelled[OF Cons.prems(1) h]
  have c: "mCancelled s1"
    and t: "terminal_calls s1 = terminal_calls s
              @ (if \<not> mCallbackSent s \<and> terminal_status ev = Some AMEDIA_OK
                 then [ClientFinished] else [])"
    and f: "mCallbackSent s1 = (mCallbackSent s \<or> terminal_status ev = Some AMEDIA_OK)"
    by simp_all
  from Cons.IH[OF c r] t f show ?case by (auto simp: image_iff)
qed

lemma run_terminal_events:
  "\<forall>ev\<in>set evs. terminal_status ev \<noteq> None \<Longrightarrow> \<exists>s'. run s evs = Inr s'"
proof (induction evs arbitrary: s)
  case Nil
  then show ?case by simp
next
  case (Cons ev evs)
  then obtain s1 where "handle s ev = Inr s1" by (cases ev) auto
  with Cons show ?case by simp
qed

text \<open>
  C2. In a session that has been cancelled, a track error or a writer completion with an
  error status changes nothing: no callback reaches the client. A writer completion with
  \<^verbatim>\<open>AMEDIA_OK\<close> still delivers \<^verbatim>\<open>onFinished\<close>, when no terminal callback was delivered
  before. Over a whole run from a cancelled session the terminal callbacks grow by
  nothing, or by one \<^verbatim>\<open>onFinished\<close> when no terminal callback was delivered before
  and one of the events carries \<^verbatim>\<open>AMEDIA_OK\<close>: an error callback is never delivered.
  A run of terminal events always returns.
\<close>

theorem cancelled_session_callbacks:
  assumes "mCancelled s"
  shows "(status \<noteq> AMEDIA_OK \<longrightarrow> onTrackError s t status = s \<and> onFinished s status = s)
       \<and> (\<not> mCallbackSent s \<longrightarrow>
            mCallbacks (onFinished s AMEDIA_OK) = mCallbacks s @ [ClientFinished])
       \<and> (run s evs = Inr s' \<longrightarrow>
            terminal_calls s'
            = terminal_calls s
              @ (if \<not> mCallbackSent s \<and> Some AMEDIA_OK \<in> terminal_status ` set evs
                 then [ClientFinished] else []))
       \<and> ((\<forall>ev\<in>set evs. terminal_status ev \<noteq> None) \<longrightarrow> (\<exists>s''. run s evs = Inr s''))"
  using assms run_cancelled[OF assms, of evs s'] run_terminal_events[of evs s]
  by (auto simp: onTrackError_def onFinished_def sendCallback_suppressed sendCallback_first
        client_call_of_def)

theorem cancelled_session_callbacks_witness:
  "mCancelled demo_cancelled
   \<and> onTrackError demo_cancelled 0 AMEDIA_ERROR_UNKNOWN = demo_cancelled
   \<and> onFinished demo_cancelled AMEDIA_ERROR_UNKNOWN = demo_cancelled
   \<and> mCallbacks (onFinished demo_cancelled AMEDIA_OK) = [ClientFinished]
   \<and> (\<exists>s'. run demo_cancelled
               [TrackError 0 AMEDIA_ERROR_UNKNOWN, WriterFinished (AMEDIA_ERROR_OTHER 7)] = Inr s'
           \<and> terminal_calls s' = [])
   \<and> (\<exists>s'. run demo_cancelled
               [TrackError 1 AMEDIA_ERROR_UNKNOWN, WriterFinished AMEDIA_OK,
                TrackError 0 AMEDIA_ERROR_UNKNOWN] = Inr s'
           \<and> terminal_calls s' = [ClientFinished])"
proof -
  note t = cancelled_session_callbacks
  have c: "mCancelled demo_cancelled" "\<not> mCallbackSent demo_cancelled"
    "mCallbacks demo_cancelled = []" "terminal_calls demo_cancelled = []"
    by (simp_all add: demo_cancelled_eq demo_session_eq demo_tracks_eq terminal_calls_def)
  let ?e1 = "[TrackError 0 AMEDIA_ERROR_UNKNOWN, WriterFinished (AMEDIA_ERROR_OTHER 7)]"
  let ?e2 = "[TrackError 1 AMEDIA_ERROR_UNKNOWN, WriterFinished AMEDIA_OK,
              TrackError 0 AMEDIA_ERROR_UNKNOWN]"
  from t[OF c(1), of AMEDIA_ERROR_UNKNOWN 0] c
  have w1: "onTrackError demo_cancelled 0 AMEDIA_ERROR_UNKNOWN = demo_cancelled"
    "onFinished demo_cancelled AMEDIA_ERROR_UNKNOWN = demo_cancelled"
    "mCallbacks (onFinished demo_cancelled AMEDIA_OK) = [ClientFinished]"
    by simp_all
  from t[OF c(1), of _ _ ?e1] obtain s1 where r1: "run demo_cancelled ?e1 = Inr s1" by auto
  from t[OF c(1), of _ _ ?e1 s1] r1 c have w2: "terminal_calls s1 = []" by simp
  from t[OF c(1), of _ _ ?e2] obtain s2 where r2: "run demo_cancelled ?e2 = Inr s2" by auto
  from t[OF c(1), of _ _ ?e2 s2] r2 c have w3: "terminal_calls s2 = [ClientFinished]" by simp
  from c w1 r1 w2 r2 w3 show ?thesis by simp
qed

section \<open>Configuration calls that fail\<close>

lemma capture_track_formats_frame:
  "capture_track_formats s fs = (s', st) \<Longrightarrow>
   s' = s\<lparr>mSourceTrackFormats := mSourceTrackFormats s'\<rparr>"
proof (induction s fs rule: capture_track_formats.induct)
  case (1 s)
  then show ?case by simp
next
  case (2 s rest)
  then show ?case by simp
next
  case (3 s trackFormat rest)
  from 3 have "s' = (s\<lparr>mSourceTrackFormats := mSourceTrackFormats s @ [trackFormat]\<rparr>)
                      \<lparr>mSourceTrackFormats := mSourceTrackFormats s'\<rparr>"
    by simp
  then show ?case by simp
qed

lemma take_set: "n \<le> a \<Longrightarrow> take n (AMediaFormat_set h a k v) = take n h"
  by (simp add: AMediaFormat_set_def split: option.splits)

lemma take_copy_entry: "n \<le> to \<Longrightarrow> take n (copy_entry h from to e) = take n h"
  by (cases e) (auto simp: CopyFormatEntry_def take_set split: option.splits)

lemma take_copy_entries: "n \<le> to \<Longrightarrow> take n (copy_entries h from to es) = take n h"
  by (induction es arbitrary: h) (simp_all add: take_copy_entry)

lemma merge_store:
  "mergeMediaFormats h base overlay = (h', r) \<Longrightarrow>
   take (length h) h' = h \<and> (r = None \<or> r = Some (length h))"
  by (auto simp: mergeMediaFormats_def AMediaFormat_new_def AMediaFormat_copy_def
        AMediaFormat_delete_def CopyFormatEntries_def take_copy_entries Let_def
        split: option.splits if_splits prod.splits)

lemma register_transcoder_failure:
  assumes "register_transcoder s i kind format answers = (s', st)" "st \<noteq> AMEDIA_OK"
    "\<forall>m. format = Some m \<longrightarrow> n \<le> m"
  shows "s' = s\<lparr>store := store s'\<rparr> \<and> take n (store s') = take n (store s)"
  using assms
  by (auto simp: register_transcoder_def AMediaFormat_delete_def Let_def
           split: if_splits option.splits)

lemma configureSource_failure:
  assumes "configureSource createFromFd s fd = (s', st)" "st \<noteq> AMEDIA_OK"
  shows "s' = s\<lparr>mSampleReader := mSampleReader s',
                  mSourceTrackFormats := mSourceTrackFormats s'\<rparr>
       \<and> (fd < 0 \<longrightarrow> s' = s)"
proof (cases "fd < 0")
  case True
  with assms show ?thesis by (simp add: configureSource_def)
next
  case False
  show ?thesis
  proof (cases "createFromFd fd")
    case None
    with assms False show ?thesis by (auto simp: configureSource_def)
  next
    case (Some r)
    with assms False
    have "capture_track_formats (s\<lparr>mSampleReader := Some r\<rparr>) (rd_trackFormats r) = (s', st)"
      by (simp add: configureSource_def)
    from capture_track_formats_frame[OF this]
    have "s' = (s\<lparr>mSampleReader := Some r\<rparr>)\<lparr>mSourceTrackFormats := mSourceTrackFormats s'\<rparr>" .
    then have "s' = s\<lparr>mSampleReader := mSampleReader s',
                        mSourceTrackFormats := mSourceTrackFormats s'\<rparr>"
      by (metis (no_types) MediaTranscoder.select_convs(2) MediaTranscoder.surjective
            MediaTranscoder.update_convs(2) MediaTranscoder.update_convs(4))
    with False show ?thesis by simp
  qed
qed

lemma reader_update_same: "mSampleReader s = x \<Longrightarrow> s\<lparr>mSampleReader := x\<rparr> = s"
  by (cases s) auto

lemma configureTrackFormat_failure:
  assumes "configureTrackFormat s i tf answers = (s', st)" "st \<noteq> AMEDIA_OK"
  shows "s' = s\<lparr>mSampleReader := mSampleReader s', store := store s'\<rparr>
       \<and> take (length (store s)) (store s') = store s
       \<and> (mSampleReader s = None \<or> length (mSourceTrackFormats s) \<le> i \<longrightarrow> s' = s)
       \<and> (\<forall>r. mSampleReader s = Some r \<longrightarrow> rd_selectTrack r i \<noteq> AMEDIA_OK \<longrightarrow> s' = s)
       \<and> (\<forall>r. mSampleReader s = Some r \<longrightarrow> i < length (mSourceTrackFormats s)
              \<longrightarrow> rd_selectTrack r i = AMEDIA_OK
              \<longrightarrow> mSampleReader s' = Some (r\<lparr>rd_selected := rd_selected r @ [i]\<rparr>))"
proof (cases "mSampleReader s")
  case None
  with assms show ?thesis by (simp add: configureTrackFormat_def)
next
  case (Some r)
  show ?thesis
  proof (cases "length (mSourceTrackFormats s) \<le> i")
    case True
    with assms Some show ?thesis by (simp add: configureTrackFormat_def)
  next
    case False
    show ?thesis
    proof (cases "rd_selectTrack r i = AMEDIA_OK")
      case sel: False
      with assms Some False have "s' = s"
        by (auto simp: configureTrackFormat_def selectTrack_def Let_def reader_update_same)
      with Some sel show ?thesis by simp
    next
      case sel: True
      let ?s1 = "s\<lparr>mSampleReader := Some (r\<lparr>rd_selected := rd_selected r @ [i]\<rparr>)\<rparr>"
      have goal: "s' = ?s1\<lparr>store := store s'\<rparr> \<and> take (length (store s)) (store s') = store s"
      proof (cases tf)
        case None
        with assms Some False sel
        have "register_transcoder ?s1 i PassthroughTrackTranscoder None answers = (s', st)"
          by (simp add: configureTrackFormat_def selectTrack_def)
        from register_transcoder_failure[OF this assms(2), of "length (store s)"]
        show ?thesis by simp
      next
        case (Some ov)
        let ?src = "mSourceTrackFormats s ! i"
        obtain h m where mg: "mergeMediaFormats (store s) (Some ?src) (Some ov) = (h, m)"
          by (cases "mergeMediaFormats (store s) (Some ?src) (Some ov)")
        from merge_store[OF mg]
        have h: "take (length (store s)) h = store s" and m: "m = None \<or> m = Some (length (store s))"
          by simp_all
        show ?thesis
        proof (cases "s' = ?s1")
          case True
          then show ?thesis by simp
        next
          case neq: False
          show ?thesis
          proof (cases m)
            case None
            with assms \<open>mSampleReader s = Some r\<close> False sel Some mg neq
            have "s' = ?s1\<lparr>store := h\<rparr>"
              by (auto simp: configureTrackFormat_def selectTrack_def Let_def
                       split: option.splits if_splits)
            with h show ?thesis by simp
          next
            case (Some a)
            with m have a: "a = length (store s)" by simp
            from assms \<open>mSampleReader s = Some r\<close> False sel \<open>tf = Some ov\<close> mg neq Some
            have "register_transcoder (?s1\<lparr>store := h\<rparr>) i VideoTrackTranscoder (Some a) answers
                  = (s', st)"
              by (auto simp: configureTrackFormat_def selectTrack_def Let_def
                       split: option.splits if_splits)
            from register_transcoder_failure[OF this assms(2), of "length (store s)"] a h
            show ?thesis by simp
          qed
        qed
      qed
      then have "s' = s\<lparr>mSampleReader := mSampleReader s', store := store s'\<rparr>"
        by (metis (no_types) MediaTranscoder.select_convs(2) MediaTranscoder.surjective
              MediaTranscoder.update_convs(2) MediaTranscoder.update_convs(9))
      moreover from goal have "mSampleReader s' = Some (r\<lparr>rd_selected := rd_selected r @ [i]\<rparr>)"
        by (metis (no_types) MediaTranscoder.select_convs(2) MediaTranscoder.surjective
              MediaTranscoder.update_convs(2) MediaTranscoder.update_convs(9))
      ultimately show ?thesis using goal Some False sel by simp
    qed
  qed
qed

lemma configureDestination_failure:
  assumes "configureDestination Create s fd = (s', st)" "st \<noteq> AMEDIA_OK"
  shows "s' = s"
  using assms by (auto simp: configureDestination_def Let_def split: if_splits)

text \<open>
  C6, as the claim states it, fails: a configuration call that returns an error can leave
  a trace in the session. In the session of the scenario with only the source configured,
  \<^verbatim>\<open>configureTrackFormat\<close> for the video track with an override that asks for
  \<^verbatim>\<open>audio/aac\<close> returns \<^verbatim>\<open>AMEDIA_ERROR_UNSUPPORTED\<close>; no track was selected on the
  reader before the call, and track 1 is selected on it after the call. On a new session,
  \<^verbatim>\<open>configureSource\<close> for a source whose second track has no format returns
  \<^verbatim>\<open>AMEDIA_ERROR_MALFORMED\<close>; the session had no reader and no source format before the
  call, and has the reader and the format of the first track after the call.
\<close>

theorem failed_configuration_counterexample:
  "snd (configureTrackFormat demo_source 1 (Some 3) demo_answers) = AMEDIA_ERROR_UNSUPPORTED
   \<and> map_option rd_selected (mSampleReader demo_source) = Some []
   \<and> map_option rd_selected
         (mSampleReader (fst (configureTrackFormat demo_source 1 (Some 3) demo_answers)))
       = Some [1]
   \<and> fst (configureTrackFormat demo_source 1 (Some 3) demo_answers) \<noteq> demo_source
   \<and> snd (configureSource (\<lambda>fd. Some (demo_reader\<lparr>rd_trackFormats := [Some 0, None]\<rparr>))
            (create demo_store) 3) = AMEDIA_ERROR_MALFORMED
   \<and> mSampleReader (create demo_store) = None
   \<and> mSourceTrackFormats (create demo_store) = []
   \<and> mSampleReader
        (fst (configureSource (\<lambda>fd. Some (demo_reader\<lparr>rd_trackFormats := [Some 0, None]\<rparr>))
                (create demo_store) 3))
       = Some (demo_reader\<lparr>rd_trackFormats := [Some 0, None]\<rparr>)
   \<and> mSourceTrackFormats
        (fst (configureSource (\<lambda>fd. Some (demo_reader\<lparr>rd_trackFormats := [Some 0, None]\<rparr>))
                (create demo_store) 3))
       = [0]"
proof -
  have "configureTrackFormat demo_source 1 (Some 3) demo_answers
        = (demo_source\<lparr>mSampleReader := Some (demo_reader\<lparr>rd_selected := [1]\<rparr>)\<rparr>,
           AMEDIA_ERROR_UNSUPPORTED)"
    by (simp add: configureTrackFormat_def selectTrack_def demo_source_eq demo_mimes
          demo_reader_def not_video_def Let_def)
  then have track:
    "snd (configureTrackFormat demo_source 1 (Some 3) demo_answers) = AMEDIA_ERROR_UNSUPPORTED"
    "map_option rd_selected (mSampleReader demo_source) = Some []"
    "map_option rd_selected
         (mSampleReader (fst (configureTrackFormat demo_source 1 (Some 3) demo_answers)))
       = Some [1]"
    "fst (configureTrackFormat demo_source 1 (Some 3) demo_answers) \<noteq> demo_source"
    by (auto simp: demo_source_eq demo_reader_def)
  have source:
    "configureSource (\<lambda>fd. Some (demo_reader\<lparr>rd_trackFormats := [Some 0, None]\<rparr>))
        (create demo_store) 3
     = ((create demo_store)
          \<lparr>mSampleReader := Some (demo_reader\<lparr>rd_trackFormats := [Some 0, None]\<rparr>),
           mSourceTrackFormats := [0]\<rparr>,
        AMEDIA_ERROR_MALFORMED)"
    by (simp add: configureSource_def create_def demo_reader_def)
  have fresh: "mSampleReader (create demo_store) = None"
    "mSourceTrackFormats (create demo_store) = []"
    by (simp_all add: create_def)
  from track source fresh show ?thesis by simp
qed

text \<open>
  C6 (amended). Every configuration call that returns an error registers no track
  transcoder. A failing \<^verbatim>\<open>configureDestination\<close> leaves the whole session as it was.
  A failing \<^verbatim>\<open>configureSource\<close> leaves the whole session as it was when the file
  descriptor is negative, and otherwise changes nothing but the reader pointer and the
  list of captured source formats. A failing \<^verbatim>\<open>configureTrackFormat\<close> leaves the whole
  session as it was when the reader is null, when the index is out of range and when the
  reader refuses to select the track; when it fails after the reader has accepted the
  selection, the track stays selected on the reader and nothing else of the session
  changes: the captured source formats, the writer, the reported tracks and the two
  one-shot flags stay as they were, and every format object that existed is untouched.
\<close>

theorem failed_configuration_frame:
  "(configureSource createFromFd s fd = (s1, st1) \<longrightarrow> st1 \<noteq> AMEDIA_OK \<longrightarrow>
      mTrackTranscoders s1 = mTrackTranscoders s
      \<and> s1 = s\<lparr>mSampleReader := mSampleReader s1,
                   mSourceTrackFormats := mSourceTrackFormats s1\<rparr>
      \<and> (fd < 0 \<longrightarrow> s1 = s))
   \<and> (configureTrackFormat s i tf answers = (s2, st2) \<longrightarrow> st2 \<noteq> AMEDIA_OK \<longrightarrow>
      mTrackTranscoders s2 = mTrackTranscoders s
      \<and> mSourceTrackFormats s2 = mSourceTrackFormats s
      \<and> s2 = s\<lparr>mSampleReader := mSampleReader s2, store := store s2\<rparr>
      \<and> take (length (store s)) (store s2) = store s
      \<and> (mSampleReader s = None \<or> length (mSourceTrackFormats s) \<le> i \<longrightarrow> s2 = s)
      \<and> (\<forall>r. mSampleReader s = Some r \<longrightarrow> rd_selectTrack r i \<noteq> AMEDIA_OK \<longrightarrow> s2 = s)
      \<and> (\<forall>r. mSampleReader s = Some r \<longrightarrow> i < length (mSourceTrackFormats s)
             \<longrightarrow> rd_selectTrack r i = AMEDIA_OK
             \<longrightarrow> mSampleReader s2 = Some (r\<lparr>rd_selected := rd_selected r @ [i]\<rparr>)))
   \<and> (configureDestination Create s fd' = (s3, st3) \<longrightarrow> st3 \<noteq> AMEDIA_OK \<longrightarrow> s3 = s)"
proof (intro conjI impI)
  assume a: "configureSource createFromFd s fd = (s1, st1)" "st1 \<noteq> AMEDIA_OK"
  from configureSource_failure[OF a]
  have f: "s1 = s\<lparr>mSampleReader := mSampleReader s1,
                    mSourceTrackFormats := mSourceTrackFormats s1\<rparr>"
    and g: "fd < 0 \<longrightarrow> s1 = s" by simp_all
  from f show "s1 = s\<lparr>mSampleReader := mSampleReader s1,
                          mSourceTrackFormats := mSourceTrackFormats s1\<rparr>" .
  from f show "mTrackTranscoders s1 = mTrackTranscoders s"
    by (metis (no_types) MediaTranscoder.select_convs(5) MediaTranscoder.surjective
          MediaTranscoder.update_convs(2) MediaTranscoder.update_convs(4))
  assume "fd < 0" with g show "s1 = s" by simp
next
  assume a: "configureTrackFormat s i tf answers = (s2, st2)" "st2 \<noteq> AMEDIA_OK"
  note f = configureTrackFormat_failure[OF a]
  from f show "s2 = s\<lparr>mSampleReader := mSampleReader s2, store := store s2\<rparr>" by simp
  then show "mTrackTranscoders s2 = mTrackTranscoders s"
    by (metis (no_types) MediaTranscoder.select_convs(5) MediaTranscoder.surjective
          MediaTranscoder.update_convs(2) MediaTranscoder.update_convs(9))
  from f show "mSourceTrackFormats s2 = mSourceTrackFormats s"
    by (metis (no_types) MediaTranscoder.select_convs(4) MediaTranscoder.surjective
          MediaTranscoder.update_convs(2) MediaTranscoder.update_convs(9))
  from f show "take (length (store s)) (store s2) = store s" by simp
  from f show "\<forall>r. mSampleReader s = Some r \<longrightarrow> rd_selectTrack r i \<noteq> AMEDIA_OK \<longrightarrow> s2 = s"
    by blast
  from f show "\<forall>r. mSampleReader s = Some r \<longrightarrow> i < length (mSourceTrackFormats s)
             \<longrightarrow> rd_selectTrack r i = AMEDIA_OK
             \<longrightarrow> mSampleReader s2 = Some (r\<lparr>rd_selected := rd_selected r @ [i]\<rparr>)"
    by blast
  assume "mSampleReader s = None \<or> length (mSourceTrackFormats s) \<le> i"
  with f show "s2 = s" by simp
next
  assume "configureDestination Create s fd' = (s3, st3)" "st3 \<noteq> AMEDIA_OK"
  then show "s3 = s" by (rule configureDestination_failure)
qed

theorem failed_configuration_frame_witness:
  "configureSource (\<lambda>fd. Some demo_reader) demo_source (- 1)
     = (demo_source, AMEDIA_ERROR_INVALID_PARAMETER)
   \<and> snd (configureTrackFormat demo_source 1 (Some 3) demo_answers) = AMEDIA_ERROR_UNSUPPORTED
   \<and> mTrackTranscoders (fst (configureTrackFormat demo_source 1 (Some 3) demo_answers)) = []
   \<and> mSourceTrackFormats (fst (configureTrackFormat demo_source 1 (Some 3) demo_answers)) = [0, 1]
   \<and> take 4 (store (fst (configureTrackFormat demo_source 1 (Some 3) demo_answers))) = demo_store
   \<and> mSampleReader (fst (configureTrackFormat demo_source 1 (Some 3) demo_answers))
       = Some (demo_reader\<lparr>rd_selected := [1]\<rparr>)
   \<and> configureTrackFormat demo_source 2 (Some 3) demo_answers
       = (demo_source, AMEDIA_ERROR_INVALID_PARAMETER)
   \<and> configureDestination (demo_writer\<lparr>wr_init := False\<rparr>) demo_tracks 4
     = (demo_tracks, AMEDIA_ERROR_UNKNOWN)"
proof -
  note t = failed_configuration_frame
  let ?cs = "configureSource (\<lambda>fd. Some demo_reader) demo_source (- 1)"
  let ?ct = "configureTrackFormat demo_source 1 (Some 3) demo_answers"
  let ?co = "configureTrackFormat demo_source 2 (Some 3) demo_answers"
  let ?cd = "configureDestination (demo_writer\<lparr>wr_init := False\<rparr>) demo_tracks 4"
  have st: "snd ?cs = AMEDIA_ERROR_INVALID_PARAMETER" "snd ?ct = AMEDIA_ERROR_UNSUPPORTED"
    "snd ?cd = AMEDIA_ERROR_UNKNOWN" "snd ?co = AMEDIA_ERROR_INVALID_PARAMETER"
    by (simp_all add: configureSource_def configureTrackFormat_def selectTrack_def
          demo_source_eq demo_mimes demo_reader_def not_video_def Let_def
          configureDestination_def demo_tracks_eq demo_writer_def)
  have d: "mTrackTranscoders demo_source = []" "mSourceTrackFormats demo_source = [0, 1]"
    "store demo_source = demo_store" "length demo_store = 4"
    "mSampleReader demo_source = Some demo_reader"
    "rd_selectTrack demo_reader 1 = AMEDIA_OK" "rd_selected demo_reader = []"
    by (simp_all add: demo_source_eq demo_store_def demo_reader_def)
  have p: "?cs = (fst ?cs, AMEDIA_ERROR_INVALID_PARAMETER)"
    "?ct = (fst ?ct, AMEDIA_ERROR_UNSUPPORTED)" "?cd = (fst ?cd, AMEDIA_ERROR_UNKNOWN)"
    "?co = (fst ?co, AMEDIA_ERROR_INVALID_PARAMETER)"
    using st by (simp_all add: prod_eq_iff)
  have ne: "AMEDIA_ERROR_INVALID_PARAMETER \<noteq> AMEDIA_OK" "AMEDIA_ERROR_UNSUPPORTED \<noteq> AMEDIA_OK"
    "AMEDIA_ERROR_UNKNOWN \<noteq> AMEDIA_OK" by simp_all
  have neg: "(- 1 :: int) < 0" by simp
  note t1 = t[of "\<lambda>fd. Some demo_reader" demo_source "- 1" "fst ?cs"
      AMEDIA_ERROR_INVALID_PARAMETER, THEN conjunct1, THEN mp, OF p(1), THEN mp, OF ne(1)]
  from t1 neg have w1: "fst ?cs = demo_source" by blast
  note t2 = t[of _ demo_source _ _ _ 1 "Some 3" demo_answers "fst ?ct"
      AMEDIA_ERROR_UNSUPPORTED, THEN conjunct2, THEN conjunct1, THEN mp, OF p(2), THEN mp, OF ne(2)]
  from t2 d
  have w2: "mTrackTranscoders (fst ?ct) = []" "mSourceTrackFormats (fst ?ct) = [0, 1]"
    "take 4 (store (fst ?ct)) = demo_store"
    "mSampleReader (fst ?ct) = Some (demo_reader\<lparr>rd_selected := [1]\<rparr>)" by simp_all
  note t4 = t[of _ demo_source _ _ _ 2 "Some 3" demo_answers "fst ?co"
      AMEDIA_ERROR_INVALID_PARAMETER, THEN conjunct2, THEN conjunct1, THEN mp, OF p(4),
      THEN mp, OF ne(1)]
  from t4 d have w4: "fst ?co = demo_source" by simp
  note t3 = t[of _ demo_tracks _ _ _ _ _ _ _ _ "demo_writer\<lparr>wr_init := False\<rparr>" 4 "fst ?cd"
      AMEDIA_ERROR_UNKNOWN, THEN conjunct2, THEN conjunct2, THEN mp, OF p(3), THEN mp, OF ne(3)]
  from t3 have w3: "fst ?cd = demo_tracks" .
  from w1 w2 w3 w4 st show ?thesis by (simp add: prod_eq_iff)
qed

section \<open>Starting the writer\<close>

lemma count_list_append: "count_list (xs @ ys) x = count_list xs x + count_list ys x"
  by (induction xs) simp_all

lemma count_list_map_other: "(\<And>i. f i \<noteq> x) \<Longrightarrow> count_list (map f is) x = 0"
  by (induction "is") simp_all

lemma sendCallback_frame [simp]:
  "calls (sendCallback s status) = calls s"
  "mTrackTranscoders (sendCallback s status) = mTrackTranscoders s"
  "mTracksAdded (sendCallback s status) = mTracksAdded s"
  "mSampleWriter (sendCallback s status) = mSampleWriter s"
  "mSampleReader (sendCallback s status) = mSampleReader s"
  by (simp_all add: sendCallback_def)

lemma cancel_frame:
  assumes "cancel s = Inr (s', r)"
  shows "writer_starts s' = writer_starts s" "mTrackTranscoders s' = mTrackTranscoders s"
    "mTracksAdded s' = mTracksAdded s" "mSampleWriter s' = mSampleWriter s"
    "(mSampleReader s' = None) = (mSampleReader s = None)"
  using assms
  by (auto simp: cancel_def Let_def writer_starts_def count_list_append count_list_map_other
           split: if_splits option.splits)

lemma start_transcoders_frame:
  assumes "start_transcoders s i ts = Inr (s', r)"
  shows "writer_starts s' = writer_starts s \<and> mTrackTranscoders s' = mTrackTranscoders s
       \<and> mTracksAdded s' = mTracksAdded s \<and> mSampleWriter s' = mSampleWriter s
       \<and> (mSampleReader s' = None) = (mSampleReader s = None)"
  using assms
proof (induction ts arbitrary: s i)
  case Nil
  then show ?case by simp
next
  case (Cons t ts)
  let ?s1 = "s\<lparr>calls := calls s @ [TranscoderStart i]\<rparr>"
  have s1: "writer_starts ?s1 = writer_starts s" by (simp add: writer_starts_def count_list_append)
  show ?case
  proof (cases "tc_start t")
    case True
    with Cons.prems have "start_transcoders ?s1 (Suc i) ts = Inr (s', r)" by simp
    from Cons.IH[OF this] s1 show ?thesis by simp
  next
    case False
    with Cons.prems obtain r2 where c: "cancel ?s1 = Inr (s', r2)"
      by (auto split: sum.splits)
    from cancel_frame[OF c] s1 show ?thesis by simp
  qed
qed

lemma start_frame:
  assumes "start s = Inr (s', r)"
  shows "writer_starts s' = writer_starts s \<and> mTrackTranscoders s' = mTrackTranscoders s
       \<and> mTracksAdded s' = mTracksAdded s \<and> mSampleWriter s' = mSampleWriter s
       \<and> (mSampleReader s' = None) = (mSampleReader s = None)"
  using assms start_transcoders_frame[of s 0 "mTrackTranscoders s" s' r]
  by (auto simp: start_def split: if_splits)

lemma onTrackFormatAvailable_effect:
  assumes "onTrackFormatAvailable s t fmt = Inr s'" "finite (mTracksAdded s)"
  shows "mTrackTranscoders s' = mTrackTranscoders s \<and> mSampleWriter s' = mSampleWriter s
       \<and> (mSampleReader s' = None) = (mSampleReader s = None)
       \<and> (mTracksAdded s' = mTracksAdded s
            \<or> t \<notin> mTracksAdded s \<and> mTracksAdded s' = insert t (mTracksAdded s))
       \<and> writer_starts s'
         = writer_starts s
           + (if mTracksAdded s' \<noteq> mTracksAdded s
                 \<and> card (mTracksAdded s') = length (mTrackTranscoders s)
              then 1 else 0)"
proof (cases "t \<in> mTracksAdded s")
  case True
  with assms show ?thesis by (simp add: onTrackFormatAvailable_def)
next
  case False
  then have ne: "insert t (mTracksAdded s) \<noteq> mTracksAdded s" by auto
  from False assms(1) obtain w where w: "mSampleWriter s = Some w"
    by (auto simp: onTrackFormatAvailable_def split: option.splits)
  show ?thesis
  proof (cases "wr_addTrack w fmt")
    case no: False
    with assms False w
    have "s' = sendCallback (s\<lparr>calls := calls s @ [WriterAddTrack fmt]\<rparr>) AMEDIA_ERROR_UNKNOWN"
      by (simp add: onTrackFormatAvailable_def Let_def)
    then show ?thesis by (simp add: writer_starts_def count_list_append)
  next
    case yes: True
    show ?thesis
    proof (cases "card (insert t (mTracksAdded s)) = length (mTrackTranscoders s)")
      case q: False
      with assms False w yes
      have "s' = s\<lparr>calls := calls s @ [WriterAddTrack fmt] @ [TranscoderSetSampleConsumer t],
                      mTracksAdded := insert t (mTracksAdded s)\<rparr>"
        by (simp add: onTrackFormatAvailable_def Let_def)
      with q False show ?thesis by (simp add: writer_starts_def count_list_append)
    next
      case q: True
      with assms False w yes obtain r where r: "mSampleReader s = Some r"
        by (auto simp: onTrackFormatAvailable_def Let_def split: option.splits)
      let ?s3 = "s\<lparr>mTracksAdded := insert t (mTracksAdded s),
                      mSampleReader := Some (setEnforceSequentialAccess r True),
                      calls := calls s @ [WriterAddTrack fmt, TranscoderSetSampleConsumer t,
                                          ReaderSetEnforceSequentialAccess True, WriterStart]\<rparr>"
      show ?thesis
      proof (cases "wr_start w")
        case True
        with assms False w yes q r have "s' = ?s3"
          by (simp add: onTrackFormatAvailable_def Let_def)
        with q False r ne show ?thesis
          by (simp add: writer_starts_def count_list_append)
      next
        case False
        with assms \<open>t \<notin> mTracksAdded s\<close> w yes q r
        have "s' = sendCallback ?s3 AMEDIA_ERROR_UNKNOWN"
          by (simp add: onTrackFormatAvailable_def Let_def)
        with q \<open>t \<notin> mTracksAdded s\<close> r ne show ?thesis
          by (simp add: writer_starts_def count_list_append)
      qed
    qed
  qed
qed

lemma handle_other:
  assumes "handle s ev = Inr s'" "reporting ev = []"
  shows "writer_starts s' = writer_starts s \<and> mTrackTranscoders s' = mTrackTranscoders s
       \<and> mTracksAdded s' = mTracksAdded s \<and> mSampleWriter s' = mSampleWriter s
       \<and> (mSampleReader s' = None) = (mSampleReader s = None)"
proof (cases ev)
  case CancelCall
  with assms obtain r where "cancel s = Inr (s', r)"
    by (auto simp: dropping_status_def split: sum.splits)
  from cancel_frame[OF this] show ?thesis by simp
next
  case PauseCall
  with assms obtain r where "cancel s = Inr (s', r)"
    by (auto simp: dropping_status_def pause_def split: sum.splits)
  from cancel_frame[OF this] show ?thesis by simp
next
  case StartCall
  with assms obtain r where "start s = Inr (s', r)"
    by (auto simp: dropping_status_def split: sum.splits)
  from start_frame[OF this] show ?thesis .
next
  case ResumeCall
  with assms obtain r where "start s = Inr (s', r)"
    by (auto simp: dropping_status_def resume_def split: sum.splits)
  from start_frame[OF this] show ?thesis .
qed (use assms in \<open>auto simp: onTrackFinished_def onTrackError_def onFinished_def
       onProgressUpdate_def writer_starts_def\<close>)

lemma full_stays_full:
  assumes "card A = n" "A \<subseteq> B" "B \<subseteq> {0 ..< n}"
  shows "B = A"
proof -
  have "A \<subseteq> {0 ..< n}" using assms by auto
  moreover have "card A = card {0 ..< n}" using assms(1) by simp
  ultimately have "A = {0 ..< n}" by (intro card_subset_eq) simp_all
  with assms show ?thesis by auto
qed

lemma handle_step:
  assumes "handle s ev = Inr s'"
    "mTracksAdded s \<subseteq> {0 ..< length (mTrackTranscoders s)}"
    "\<forall>t\<in>set (reporting ev). t < length (mTrackTranscoders s)"
  shows "mTrackTranscoders s' = mTrackTranscoders s
       \<and> mTracksAdded s \<subseteq> mTracksAdded s'
       \<and> mTracksAdded s' \<subseteq> mTracksAdded s \<union> set (reporting ev)
       \<and> mTracksAdded s' \<subseteq> {0 ..< length (mTrackTranscoders s)}
       \<and> writer_starts s'
         = writer_starts s
           + (if card (mTracksAdded s') = length (mTrackTranscoders s)
                 \<and> card (mTracksAdded s) \<noteq> length (mTrackTranscoders s)
              then 1 else 0)"
proof (cases "reporting ev = []")
  case True
  from handle_other[OF assms(1) True] assms(2) show ?thesis by auto
next
  case False
  then obtain t fmt where ev: "ev = TrackFormatAvailable t fmt" by (cases ev) auto
  have fin: "finite (mTracksAdded s)" using assms(2) finite_subset by blast
  from assms(1) ev have "onTrackFormatAvailable s t fmt = Inr s'" by simp
  note e = onTrackFormatAvailable_effect[OF this fin]
  from assms(3) ev have t: "t < length (mTrackTranscoders s)" by simp
  show ?thesis
  proof (cases "mTracksAdded s' = mTracksAdded s")
    case True
    with e assms(2) show ?thesis by auto
  next
    case False
    with e have ins: "t \<notin> mTracksAdded s" "mTracksAdded s' = insert t (mTracksAdded s)"
      by auto
    then have "card (mTracksAdded s') = Suc (card (mTracksAdded s))" using fin by simp
    with e False ins ev t assms(2) show ?thesis by auto
  qed
qed

lemma reported_Cons: "reported (ev # evs) = set (reporting ev) \<union> reported evs"
  by (simp add: reported_def)

lemma run_tracks:
  assumes "run s evs = Inr s'"
    "mTracksAdded s \<subseteq> {0 ..< length (mTrackTranscoders s)}"
    "\<forall>t\<in>reported evs. t < length (mTrackTranscoders s)"
  shows "mTrackTranscoders s' = mTrackTranscoders s
       \<and> mTracksAdded s \<subseteq> mTracksAdded s'
       \<and> mTracksAdded s' \<subseteq> mTracksAdded s \<union> reported evs
       \<and> mTracksAdded s' \<subseteq> {0 ..< length (mTrackTranscoders s)}
       \<and> writer_starts s'
         = writer_starts s
           + (if card (mTracksAdded s') = length (mTrackTranscoders s)
                 \<and> card (mTracksAdded s) \<noteq> length (mTrackTranscoders s)
              then 1 else 0)"
  using assms
proof (induction evs arbitrary: s)
  case Nil
  then show ?case by simp
next
  case (Cons ev evs)
  let ?n = "length (mTrackTranscoders s)"
  from Cons.prems(1) obtain s1 where h: "handle s ev = Inr s1" and r: "run s1 evs = Inr s'"
    by (auto split: sum.splits)
  have rep: "\<forall>t\<in>set (reporting ev). t < ?n" "\<forall>t\<in>reported evs. t < ?n"
    using Cons.prems(3) by (simp_all add: reported_Cons)
  from handle_step[OF h Cons.prems(2) rep(1)]
  have n1: "mTrackTranscoders s1 = mTrackTranscoders s"
    and m1: "mTracksAdded s \<subseteq> mTracksAdded s1"
    and u1: "mTracksAdded s1 \<subseteq> mTracksAdded s \<union> set (reporting ev)"
    and b1: "mTracksAdded s1 \<subseteq> {0 ..< ?n}"
    and w1: "writer_starts s1 = writer_starts s
               + (if card (mTracksAdded s1) = ?n \<and> card (mTracksAdded s) \<noteq> ?n then 1 else 0)"
    by simp_all
  from Cons.IH[OF r] b1 rep(2) n1
  have n2: "mTrackTranscoders s' = mTrackTranscoders s"
    and m2: "mTracksAdded s1 \<subseteq> mTracksAdded s'"
    and u2: "mTracksAdded s' \<subseteq> mTracksAdded s1 \<union> reported evs"
    and b2: "mTracksAdded s' \<subseteq> {0 ..< ?n}"
    and w2: "writer_starts s' = writer_starts s1
               + (if card (mTracksAdded s') = ?n \<and> card (mTracksAdded s1) \<noteq> ?n then 1 else 0)"
    by simp_all
  have f1: "card (mTracksAdded s) = ?n \<Longrightarrow> mTracksAdded s1 = mTracksAdded s"
    using m1 b1 full_stays_full by blast
  have f2: "card (mTracksAdded s1) = ?n \<Longrightarrow> mTracksAdded s' = mTracksAdded s1"
    using m2 b2 full_stays_full by blast
  have w: "writer_starts s' = writer_starts s
             + (if card (mTracksAdded s') = ?n \<and> card (mTracksAdded s) \<noteq> ?n then 1 else 0)"
  proof (cases "card (mTracksAdded s) = ?n")
    case True
    with f1 have c1: "card (mTracksAdded s1) = ?n" by simp
    with f2 have "card (mTracksAdded s') = ?n" by simp
    with True c1 w1 w2 show ?thesis by simp
  next
    case False
    show ?thesis
    proof (cases "card (mTracksAdded s1) = ?n")
      case True
      with f2 have "card (mTracksAdded s') = ?n" by simp
      with True False w1 w2 show ?thesis by simp
    next
      case n: False
      with False w1 w2 show ?thesis by simp
    qed
  qed
  have sub: "mTracksAdded s \<subseteq> mTracksAdded s'" using m1 m2 by blast
  have un: "mTracksAdded s' \<subseteq> mTracksAdded s \<union> reported (ev # evs)"
    using u1 u2 unfolding reported_Cons by blast
  from n2 sub un b2 w show ?case by blast
qed

lemma run_configured:
  assumes "mSampleWriter s \<noteq> None" "mSampleReader s \<noteq> None"
  shows "\<exists>s'. run s evs = Inr s'"
  using assms
proof (induction evs arbitrary: s)
  case Nil
  then show ?case by simp
next
  case (Cons ev evs)
  from Cons.prems obtain w r where wr: "mSampleWriter s = Some w" "mSampleReader s = Some r"
    by auto
  have c: "\<exists>s1 st. cancel x = Inr (s1, st)"
    if "mSampleWriter x = Some w" "mSampleReader x = Some r'" for x r'
    using that cancel_configured[of x w r'] cancel_already[of x] by (cases "mCancelled x") auto
  have st: "\<exists>s1 r1. start_transcoders x i ts = Inr (s1, r1)"
    if "mSampleWriter x = Some w" "mSampleReader x = Some r" for x i ts
    using that
  proof (induction ts arbitrary: x i)
    case Nil
    then show ?case by simp
  next
    case (Cons t ts)
    let ?x1 = "x\<lparr>calls := calls x @ [TranscoderStart i]\<rparr>"
    have x1: "mSampleWriter ?x1 = Some w" "mSampleReader ?x1 = Some r" using Cons.prems by simp_all
    from c[OF x1] obtain s1 st1 where "cancel ?x1 = Inr (s1, st1)" by auto
    with Cons.IH[OF x1, of "Suc i"] show ?case by (auto simp: Let_def)
  qed
  have "\<exists>s1. handle s ev = Inr s1"
  proof (cases ev)
    case (TrackFormatAvailable t fmt)
    with wr show ?thesis
      by (auto simp: onTrackFormatAvailable_def Let_def)
  next
    case CancelCall
    with c[OF wr] show ?thesis by (auto simp: dropping_status_def)
  next
    case PauseCall
    with c[OF wr] show ?thesis by (auto simp: dropping_status_def pause_def)
  next
    case StartCall
    with st[OF wr, of 0 "mTrackTranscoders s"] show ?thesis
      by (auto simp: dropping_status_def start_def)
  next
    case ResumeCall
    with st[OF wr, of 0 "mTrackTranscoders s"] show ?thesis
      by (auto simp: dropping_status_def start_def resume_def)
  qed simp_all
  then obtain s1 where h: "handle s ev = Inr s1" by auto
  have "mSampleWriter s1 \<noteq> None \<and> mSampleReader s1 \<noteq> None"
  proof (cases "reporting ev = []")
    case True
    from handle_other[OF h True] Cons.prems show ?thesis by simp
  next
    case False
    then obtain t fmt where ev: "ev = TrackFormatAvailable t fmt" by (cases ev) auto
    with h wr show ?thesis
      by (auto simp: onTrackFormatAvailable_def Let_def split: if_splits)
  qed
  with Cons.IH[of s1] h show ?case by simp
qed

lemma run_append:
  "run s (evs1 @ evs2) = (case run s evs1 of Inl f \<Rightarrow> Inl f | Inr s1 \<Rightarrow> run s1 evs2)"
  by (induction evs1 arbitrary: s) (auto split: sum.splits)

lemma reported_append: "reported (evs1 @ evs2) = reported evs1 \<union> reported evs2"
  by (simp add: reported_def)

lemma demo_run:
  "\<exists>s'. run demo_started
          [TrackFormatAvailable 0 None, TrackFormatAvailable 0 None, ProgressUpdate 50,
           TrackFormatAvailable 1 (Some 4), TrackFormatAvailable 1 (Some 4),
           WriterFinished AMEDIA_OK] = Inr s'
        \<and> mTracksAdded s' = {0, 1}
        \<and> calls s' = [TranscoderStart 0, TranscoderStart 1,
                       WriterAddTrack None, TranscoderSetSampleConsumer 0,
                       WriterAddTrack (Some 4), TranscoderSetSampleConsumer 1,
                       ReaderSetEnforceSequentialAccess True, WriterStart]
        \<and> mCallbacks s' = [ClientProgressUpdate 50, ClientFinished]"
  by (auto simp: demo_started_eq demo_session_eq demo_tracks_eq demo_writer_def
        onTrackFormatAvailable_def onProgressUpdate_def onFinished_def sendCallback_def
        client_call_of_def Let_def)

text \<open>
  C3. Take a configured session in which no transcoder has reported yet, and a run of
  events in which every format report comes from a configured transcoder. Over the run
  \<^verbatim>\<open>start\<close> is called on the writer at most once, and exactly when the set of reported
  tracks has become the set of all configured transcoders (and there is at least one);
  a call of \<^verbatim>\<open>start\<close> on the writer therefore means that every configured transcoder
  has sent a format report in the run, and no prefix of the run in which some
  transcoder has not reported contains one. Only transcoders that have reported are in
  the set; the set and the number of writer starts never shrink from a prefix of the
  run to the whole run; and a further report of a transcoder that is in the set leaves
  the session exactly as it is. The list of transcoders does not change. A run on a
  session whose reader and writer are there always returns.
\<close>

theorem writer_started_once:
  assumes "mTracksAdded s = {}"
      and "\<forall>t\<in>reported evs. t < length (mTrackTranscoders s)"
      and "run s evs = Inr s'"
  shows "writer_starts s'
         = writer_starts s
           + (if mTracksAdded s' = {0 ..< length (mTrackTranscoders s)}
                 \<and> 0 < length (mTrackTranscoders s)
              then 1 else 0)
       \<and> writer_starts s' \<le> writer_starts s + 1
       \<and> (writer_starts s < writer_starts s' \<longrightarrow>
            (\<forall>t<length (mTrackTranscoders s). t \<in> reported evs))
       \<and> mTracksAdded s' \<subseteq> reported evs
       \<and> (\<forall>evs1 evs2 s1. evs = evs1 @ evs2 \<longrightarrow> run s evs1 = Inr s1 \<longrightarrow>
              mTracksAdded s1 \<subseteq> mTracksAdded s' \<and> writer_starts s1 \<le> writer_starts s'
              \<and> ((\<exists>t<length (mTrackTranscoders s). t \<notin> reported evs1) \<longrightarrow>
                   writer_starts s1 = writer_starts s))
       \<and> (\<forall>t fmt. t \<in> mTracksAdded s' \<longrightarrow> onTrackFormatAvailable s' t fmt = Inr s')
       \<and> mTrackTranscoders s' = mTrackTranscoders s
       \<and> (mSampleWriter s \<noteq> None \<longrightarrow> mSampleReader s \<noteq> None \<longrightarrow>
            (\<exists>s''. run s evs = Inr s''))"
proof -
  let ?n = "length (mTrackTranscoders s)"
  have inv: "mTracksAdded s \<subseteq> {0 ..< ?n}" using assms(1) by simp
  have main: "mTrackTranscoders x = mTrackTranscoders s
       \<and> mTracksAdded x \<subseteq> reported es
       \<and> mTracksAdded x \<subseteq> {0 ..< ?n}
       \<and> writer_starts x
         = writer_starts s + (if mTracksAdded x = {0 ..< ?n} \<and> 0 < ?n then 1 else 0)"
    if r: "run s es = Inr x" and rep: "\<forall>t\<in>reported es. t < ?n" for x es
  proof -
    note t = run_tracks[OF r inv rep]
    from t have b: "mTracksAdded x \<subseteq> {0 ..< ?n}" by simp
    have full: "card (mTracksAdded x) = ?n \<longleftrightarrow> mTracksAdded x = {0 ..< ?n}"
    proof
      assume "card (mTracksAdded x) = ?n"
      then have "card (mTracksAdded x) = card {0 ..< ?n}" by simp
      with b show "mTracksAdded x = {0 ..< ?n}" by (intro card_subset_eq) simp_all
    next
      assume "mTracksAdded x = {0 ..< ?n}"
      then show "card (mTracksAdded x) = ?n" by simp
    qed
    from t full assms(1) show ?thesis by auto
  qed
  note m = main[OF assms(3) assms(2)]
  have w: "writer_starts s'
         = writer_starts s + (if mTracksAdded s' = {0 ..< ?n} \<and> 0 < ?n then 1 else 0)"
    using m by simp
  have sub: "mTracksAdded s' \<subseteq> reported evs" using m by simp
  have all: "\<forall>t<?n. t \<in> reported evs" if "writer_starts s < writer_starts s'"
  proof -
    from that w have "mTracksAdded s' = {0 ..< ?n}" by (simp split: if_splits)
    with sub show ?thesis by auto
  qed
  have pre: "mTracksAdded s1 \<subseteq> mTracksAdded s' \<and> writer_starts s1 \<le> writer_starts s'
              \<and> ((\<exists>t<?n. t \<notin> reported evs1) \<longrightarrow> writer_starts s1 = writer_starts s)"
    if e: "evs = evs1 @ evs2" and r1: "run s evs1 = Inr s1" for evs1 evs2 s1
  proof -
    have rep1: "\<forall>t\<in>reported evs1. t < ?n" "\<forall>t\<in>reported evs2. t < ?n"
      using assms(2) e by (simp_all add: reported_append)
    note m1 = main[OF r1 rep1(1)]
    from assms(3) e r1 have r2: "run s1 evs2 = Inr s'" by (simp add: run_append)
    from m1 have inv1: "mTracksAdded s1 \<subseteq> {0 ..< length (mTrackTranscoders s1)}"
      and rep2: "\<forall>t\<in>reported evs2. t < length (mTrackTranscoders s1)"
      using rep1(2) by simp_all
    note t2 = run_tracks[OF r2 inv1 rep2]
    from t2 have a: "mTracksAdded s1 \<subseteq> mTracksAdded s'" "writer_starts s1 \<le> writer_starts s'"
      by simp_all
    have c: "writer_starts s1 = writer_starts s" if "\<exists>t<?n. t \<notin> reported evs1"
    proof -
      from that m1 have "mTracksAdded s1 \<noteq> {0 ..< ?n}" by auto
      with m1 show ?thesis by simp
    qed
    from a c show ?thesis by blast
  qed
  have dup: "onTrackFormatAvailable s' t fmt = Inr s'" if "t \<in> mTracksAdded s'" for t fmt
    using that by (simp add: onTrackFormatAvailable_def)
  have tot: "\<exists>s''. run s evs = Inr s''"
    if "mSampleWriter s \<noteq> None" "mSampleReader s \<noteq> None"
    using that by (rule run_configured)
  from w have le: "writer_starts s' \<le> writer_starts s + 1" by simp
  from m have tr: "mTrackTranscoders s' = mTrackTranscoders s" by simp
  from w le all sub pre dup tr tot show ?thesis by blast
qed

theorem writer_started_once_witness:
  "mTracksAdded demo_started = {}
   \<and> length (mTrackTranscoders demo_started) = 2
   \<and> reported [TrackFormatAvailable 0 None, TrackFormatAvailable 0 None, ProgressUpdate 50,
                 TrackFormatAvailable 1 (Some 4), TrackFormatAvailable 1 (Some 4),
                 WriterFinished AMEDIA_OK] = {0, 1}
   \<and> (\<exists>s'. run demo_started
              [TrackFormatAvailable 0 None, TrackFormatAvailable 0 None, ProgressUpdate 50,
               TrackFormatAvailable 1 (Some 4), TrackFormatAvailable 1 (Some 4),
               WriterFinished AMEDIA_OK] = Inr s'
            \<and> mTracksAdded s' = {0, 1} \<and> writer_starts s' = 1)
   \<and> (\<exists>s1. run demo_started
              [TrackFormatAvailable 0 None, TrackFormatAvailable 0 None, ProgressUpdate 50]
              = Inr s1
            \<and> writer_starts s1 = 0)"
proof -
  let ?e1 = "[TrackFormatAvailable 0 None, TrackFormatAvailable 0 None, ProgressUpdate 50]"
  let ?e2 = "[TrackFormatAvailable 1 (Some 4), TrackFormatAvailable 1 (Some 4),
              WriterFinished AMEDIA_OK]"
  have d: "mTracksAdded demo_started = {}" "length (mTrackTranscoders demo_started) = 2"
    "writer_starts demo_started = 0"
    "mSampleWriter demo_started \<noteq> None" "mSampleReader demo_started \<noteq> None"
    by (simp_all add: demo_started_eq demo_session_eq demo_tracks_eq writer_starts_def)
  have rep: "reported (?e1 @ ?e2) = {0, 1}" "reported ?e1 = {0}"
    by (auto simp: reported_def)
  have bound: "\<forall>t\<in>reported (?e1 @ ?e2). t < length (mTrackTranscoders demo_started)"
    unfolding rep d by simp
  from demo_run obtain s' where r: "run demo_started (?e1 @ ?e2) = Inr s'"
    and a: "mTracksAdded s' = {0, 1}" by auto
  from run_configured[OF d(4,5), of ?e1] obtain s1 where r1: "run demo_started ?e1 = Inr s1"
    by auto
  note t = writer_started_once[OF d(1) bound r]
  have full: "{0 ..< 2 :: nat} = {0, 1}" by auto
  from t a d full have w: "writer_starts s' = 1" by simp
  have miss: "\<exists>t<length (mTrackTranscoders demo_started). t \<notin> reported ?e1"
    unfolding rep d by (intro exI[of _ 1]) simp
  from t r1 miss have "writer_starts s1 = writer_starts demo_started" by blast
  with d have w1: "writer_starts s1 = 0" by simp
  from d rep r a w r1 w1 show ?thesis by auto
qed

section \<open>Threads in cancel and sendCallback\<close>

lemma count_pcs_append: "count_pcs P (xs @ ys) = count_pcs P xs + count_pcs P ys"
  by (simp add: count_pcs_def)

lemma count_pcs_update:
  "i < length pcs \<Longrightarrow>
   count_pcs P (pcs[i := q]) + (if P (pcs ! i) then 1 else 0)
   = count_pcs P pcs + (if P q then 1 else 0)"
proof (induction pcs arbitrary: i)
  case Nil
  then show ?case by simp
next
  case (Cons p pcs)
  show ?case
  proof (cases i)
    case 0
    then show ?thesis by (simp add: count_pcs_def)
  next
    case (Suc j)
    with Cons.prems have "j < length pcs" by simp
    from Cons.IH[OF this] Suc show ?thesis by (simp add: count_pcs_def)
  qed
qed

lemma count_pcs_zero: "count_pcs P pcs = 0 \<longleftrightarrow> (\<forall>p\<in>set pcs. \<not> P p)"
  by (induction pcs) (auto simp: count_pcs_def)

lemma count_pcs_nth: "i < length pcs \<Longrightarrow> P (pcs ! i) \<Longrightarrow> 0 < count_pcs P pcs"
  using count_pcs_zero[of P pcs] nth_mem[of i pcs] by auto

text \<open>What one step of a scheduled thread does to the configuration.\<close>

lemma sched_step_idle:
  "\<not> (i < length pcs \<and> Fault \<notin> set pcs) \<Longrightarrow> sched_step i (s, pcs) = (s, pcs)"
  by auto

lemma sched_step_run:
  "i < length pcs \<Longrightarrow> Fault \<notin> set pcs \<Longrightarrow> thread_step s (pcs ! i) = (s', q, created) \<Longrightarrow>
   sched_step i (s, pcs) = (s', pcs[i := q] @ created)"
  by simp

lemma exec_append: "exec (xs @ ys) c = exec ys (exec xs c)"
  by (induction xs arbitrary: c) simp_all

text \<open>
  An invariant of the configurations that is kept by every step is kept by every
  schedule.
\<close>

lemma exec_invariant:
  assumes "I c" "\<And>i c. I c \<Longrightarrow> I (sched_step i c)"
  shows "I (exec sched c)"
  using assms(1)
proof (induction sched arbitrary: c)
  case Nil
  then show ?case by simp
next
  case (Cons i sched)
  from Cons.IH[OF assms(2)[OF Cons.prems]] show ?case by simp
qed

lemma in_set_updateD: "p \<in> set (pcs[i := q]) \<Longrightarrow> p = q \<or> p \<in> set pcs"
  using set_update_subset_insert[of pcs i q] by auto

lemma thread_step_callbacks:
  assumes "thread_step s p = (s', q, created)"
  shows "(\<forall>status. pc_status q = Some status \<longrightarrow> pc_status p = Some status)
       \<and> (\<forall>p'\<in>set created. p' = Cancel_entry)
       \<and> (mCallbackSent s \<longrightarrow> mCallbackSent s')
       \<and> (\<exists>new. mCallbacks s' = mCallbacks s @ new
                 \<and> (new = [] \<or> (\<exists>status. p = SendCallback_notify status
                                          \<and> new = [client_call_of status]))
                 \<and> length new + (if notifying q then 1 else 0)
                       + (if mCallbackSent s then 1 else 0)
                     = (if notifying p then 1 else 0) + (if mCallbackSent s' then 1 else 0))"
  using assms by (cases p) (auto split: if_splits option.splits)

lemma callback_inv_step:
  assumes "callback_inv S c0 b0 c"
  shows "callback_inv S c0 b0 (sched_step i c)"
proof -
  obtain s pcs where c: "c = (s, pcs)" by (cases c)
  show ?thesis
  proof (cases "i < length pcs \<and> Fault \<notin> set pcs")
    case False
    then have "sched_step i (s, pcs) = (s, pcs)" by (rule sched_step_idle)
    with assms c show ?thesis by simp
  next
    case True
    obtain s' q created where t: "thread_step s (pcs ! i) = (s', q, created)"
      by (cases "thread_step s (pcs ! i)")
    with True have st: "sched_step i (s, pcs) = (s', pcs[i := q] @ created)" by simp
    from assms c have st_in: "\<forall>p\<in>set pcs. \<forall>status. pc_status p = Some status \<longrightarrow> status \<in> S"
      and b: "b0 \<longrightarrow> mCallbackSent s"
      by (simp_all add: callback_inv_def)
    from assms c obtain new where new: "mCallbacks s = c0 @ new" "set new \<subseteq> client_call_of ` S"
      "length new + count_pcs notifying pcs + (if b0 then 1 else 0)
       = (if mCallbackSent s then 1 else 0)"
      by (auto simp: callback_inv_def)
    note e = thread_step_callbacks[OF t]
    from e obtain new' where new': "mCallbacks s' = mCallbacks s @ new'"
      "new' = [] \<or> (\<exists>status. pcs ! i = SendCallback_notify status
                                \<and> new' = [client_call_of status])"
      "length new' + (if notifying q then 1 else 0) + (if mCallbackSent s then 1 else 0)
       = (if notifying (pcs ! i) then 1 else 0) + (if mCallbackSent s' then 1 else 0)"
      by auto
    have mem: "pcs ! i \<in> set pcs" using True by simp
    have cr: "count_pcs notifying created = 0"
      using e by (auto simp: count_pcs_zero)
    have a1: "\<forall>p\<in>set (pcs[i := q] @ created). \<forall>status. pc_status p = Some status \<longrightarrow> status \<in> S"
    proof (intro ballI allI impI)
      fix p status
      assume p: "p \<in> set (pcs[i := q] @ created)" and ps: "pc_status p = Some status"
      from p have "p = q \<or> p \<in> set pcs \<or> p \<in> set created"
        by (auto dest: in_set_updateD)
      then show "status \<in> S"
      proof (elim disjE)
        assume "p = q"
        with ps e have "pc_status (pcs ! i) = Some status" by simp
        with st_in mem show ?thesis by blast
      next
        assume "p \<in> set pcs"
        with st_in ps show ?thesis by blast
      next
        assume "p \<in> set created"
        with e ps show ?thesis by auto
      qed
    qed
    have a2: "b0 \<longrightarrow> mCallbackSent s'" using b e by simp
    have sub: "set (new @ new') \<subseteq> client_call_of ` S"
    proof -
      from new'(2) have "set new' \<subseteq> client_call_of ` S"
      proof
        assume "new' = []"
        then show ?thesis by simp
      next
        assume "\<exists>status. pcs ! i = SendCallback_notify status \<and> new' = [client_call_of status]"
        then obtain status where x: "pcs ! i = SendCallback_notify status"
          "new' = [client_call_of status]" by auto
        with st_in mem have "status \<in> S" by force
        with x show ?thesis by simp
      qed
      with new(2) show ?thesis by simp
    qed
    have cnt: "length (new @ new') + count_pcs notifying (pcs[i := q] @ created)
                 + (if b0 then 1 else 0)
               = (if mCallbackSent s' then 1 else 0)"
      using count_pcs_update[of i pcs notifying q] True new(3) new'(3) cr
      by (simp add: count_pcs_append split: if_splits)
    have "mCallbacks s' = c0 @ (new @ new')" using new(1) new'(1) by simp
    with a1 a2 sub cnt have "callback_inv S c0 b0 (s', pcs[i := q] @ created)"
      unfolding callback_inv_def by (simp only: prod.case) blast
    with st c show ?thesis by simp
  qed
qed

lemma thread_step_started:
  assumes "thread_step s p = (s', q, created)"
    "mCancelled s \<or> \<not> waiting p \<longrightarrow> mCallbackSent s"
  shows "(mCallbackSent s \<longrightarrow> mCallbackSent s')
       \<and> (mCancelled s' \<or> \<not> waiting q \<or> created \<noteq> [] \<longrightarrow> mCallbackSent s')"
  using assms by (cases p) (auto split: if_splits option.splits)

lemma started_inv_step:
  assumes "started_inv c"
  shows "started_inv (sched_step i c)"
proof -
  obtain s pcs where c: "c = (s, pcs)" by (cases c)
  show ?thesis
  proof (cases "i < length pcs \<and> Fault \<notin> set pcs")
    case False
    then have "sched_step i (s, pcs) = (s, pcs)" by (rule sched_step_idle)
    with assms c show ?thesis by simp
  next
    case True
    obtain s' q created where t: "thread_step s (pcs ! i) = (s', q, created)"
      by (cases "thread_step s (pcs ! i)")
    with True have st: "sched_step i (s, pcs) = (s', pcs[i := q] @ created)" by simp
    from assms c have inv: "mCancelled s \<or> (\<exists>p\<in>set pcs. \<not> waiting p) \<longrightarrow> mCallbackSent s"
      by (simp add: started_inv_def)
    have mem: "pcs ! i \<in> set pcs" using True by simp
    from inv mem have "mCancelled s \<or> \<not> waiting (pcs ! i) \<longrightarrow> mCallbackSent s" by blast
    note e = thread_step_started[OF t this]
    have "mCallbackSent s'"
      if "mCancelled s' \<or> (\<exists>p\<in>set (pcs[i := q] @ created). \<not> waiting p)"
    proof -
      from that consider "mCancelled s'" | "\<not> waiting q" | "created \<noteq> []"
        | p where "p \<in> set pcs" "\<not> waiting p"
        by (cases "created = []") (auto dest: in_set_updateD)
      then show ?thesis
      proof cases
        case 4
        with inv have "mCallbackSent s" by blast
        with e show ?thesis by simp
      qed (use e in simp_all)
    qed
    then have "started_inv (s', pcs[i := q] @ created)"
      unfolding started_inv_def by (simp only: prod.case) blast
    with st c show ?thesis by simp
  qed
qed

lemma count_two:
  "i < j \<Longrightarrow> j < length pcs \<Longrightarrow> P (pcs ! i) \<Longrightarrow> P (pcs ! j) \<Longrightarrow> 2 \<le> count_pcs P pcs"
proof (induction pcs arbitrary: i j)
  case Nil
  then show ?case by simp
next
  case (Cons p pcs)
  from Cons.prems(1) obtain j' where j: "j = Suc j'" by (cases j) auto
  show ?case
  proof (cases i)
    case 0
    with Cons.prems j have "P p" "j' < length pcs" "P (pcs ! j')" by simp_all
    with count_pcs_nth[of j' pcs P] show ?thesis by (simp add: count_pcs_def)
  next
    case (Suc i')
    with Cons.prems j have "i' < j'" "j' < length pcs" "P (pcs ! i')" "P (pcs ! j')" by simp_all
    from Cons.IH[OF this] show ?thesis by (simp add: count_pcs_def)
  qed
qed

lemma count_one_update:
  assumes "count_pcs P pcs \<le> 1" "i < length pcs" "P (pcs ! i)"
  shows "count_pcs P (pcs[i := q]) = (if P q then 1 else 0)"
    and "p \<in> set (pcs[i := q]) \<Longrightarrow> P p \<Longrightarrow> p = q"
proof -
  have one: "count_pcs P pcs = 1"
    using assms count_pcs_nth[of i pcs P] by simp
  from count_pcs_update[of i pcs P q] assms one
  show "count_pcs P (pcs[i := q]) = (if P q then 1 else 0)" by simp
  assume p: "p \<in> set (pcs[i := q])" "P p"
  show "p = q"
  proof (rule ccontr)
    assume ne: "p \<noteq> q"
    from p(1) obtain j where j: "j < length pcs" "(pcs[i := q]) ! j = p"
      by (auto simp: in_set_conv_nth)
    with ne have ji: "j \<noteq> i" using assms(2) by auto
    with j have pj: "pcs ! j = p" by simp
    have "2 \<le> count_pcs P pcs"
    proof (cases "i < j")
      case True
      from count_two[of i j pcs P] True j(1) assms(3) pj p(2) show ?thesis by simp
    next
      case False
      with ji have "j < i" by simp
      from count_two[of j i pcs P] this assms(2) pj p(2) assms(3) show ?thesis by simp
    qed
    with one show False by simp
  qed
qed

lemma stop_invD:
  assumes "stop_inv c0 n (s, pcs)"
  shows "mSampleWriter s \<noteq> None" "mSampleReader s \<noteq> None" "length (mTrackTranscoders s) = n"
    "Fault \<notin> set pcs"
    "\<And>status. Cancel_return status \<in> set pcs \<Longrightarrow> status = AMEDIA_OK \<and> mCancelled s"
    "\<not> mCancelled s \<Longrightarrow> count_pcs stopping pcs = 0 \<and> calls s = c0"
    "mCancelled s \<Longrightarrow> count_pcs stopping pcs \<le> 1"
    "mCancelled s \<Longrightarrow> count_pcs stopping pcs = 0 \<Longrightarrow>
       calls s = c0 @ [WriterStop, ReaderSetEnforceSequentialAccess False]
                    @ map TranscoderStop [0 ..< n]"
    "\<And>p. mCancelled s \<Longrightarrow> p \<in> set pcs \<Longrightarrow> stopping p \<Longrightarrow>
       calls s = c0 @ stops_done p \<and> (\<forall>i. p = Cancel_stopTranscoder i \<longrightarrow> i \<le> n)"
proof -
  from assms have a: "mSampleWriter s \<noteq> None \<and> mSampleReader s \<noteq> None
        \<and> length (mTrackTranscoders s) = n
        \<and> Fault \<notin> set pcs
        \<and> (\<forall>status. Cancel_return status \<in> set pcs \<longrightarrow> status = AMEDIA_OK \<and> mCancelled s)
        \<and> (\<not> mCancelled s \<longrightarrow> count_pcs stopping pcs = 0 \<and> calls s = c0)
        \<and> (mCancelled s \<longrightarrow>
              count_pcs stopping pcs \<le> 1
              \<and> (count_pcs stopping pcs = 0 \<longrightarrow>
                    calls s = c0 @ [WriterStop, ReaderSetEnforceSequentialAccess False]
                                 @ map TranscoderStop [0 ..< n])
              \<and> (\<forall>p\<in>set pcs. stopping p \<longrightarrow>
                    calls s = c0 @ stops_done p
                    \<and> (\<forall>i. p = Cancel_stopTranscoder i \<longrightarrow> i \<le> n)))"
    by (simp add: stop_inv_def)
  from a show "mSampleWriter s \<noteq> None" "mSampleReader s \<noteq> None"
    "length (mTrackTranscoders s) = n" "Fault \<notin> set pcs" by blast+
  from a show "\<And>status. Cancel_return status \<in> set pcs \<Longrightarrow> status = AMEDIA_OK \<and> mCancelled s"
    by blast
  from a show "\<not> mCancelled s \<Longrightarrow> count_pcs stopping pcs = 0 \<and> calls s = c0" by blast
  from a show "mCancelled s \<Longrightarrow> count_pcs stopping pcs \<le> 1" by blast
  from a show "mCancelled s \<Longrightarrow> count_pcs stopping pcs = 0 \<Longrightarrow>
       calls s = c0 @ [WriterStop, ReaderSetEnforceSequentialAccess False]
                    @ map TranscoderStop [0 ..< n]" by blast
  from a show "\<And>p. mCancelled s \<Longrightarrow> p \<in> set pcs \<Longrightarrow> stopping p \<Longrightarrow>
       calls s = c0 @ stops_done p \<and> (\<forall>i. p = Cancel_stopTranscoder i \<longrightarrow> i \<le> n)" by blast
qed

lemma stop_invI:
  assumes "mSampleWriter s \<noteq> None" "mSampleReader s \<noteq> None" "length (mTrackTranscoders s) = n"
    "Fault \<notin> set pcs"
    "\<And>status. Cancel_return status \<in> set pcs \<Longrightarrow> status = AMEDIA_OK \<and> mCancelled s"
    "\<not> mCancelled s \<Longrightarrow> count_pcs stopping pcs = 0 \<and> calls s = c0"
    "mCancelled s \<Longrightarrow> count_pcs stopping pcs \<le> 1"
    "mCancelled s \<Longrightarrow> count_pcs stopping pcs = 0 \<Longrightarrow>
       calls s = c0 @ [WriterStop, ReaderSetEnforceSequentialAccess False]
                    @ map TranscoderStop [0 ..< n]"
    "\<And>p. mCancelled s \<Longrightarrow> p \<in> set pcs \<Longrightarrow> stopping p \<Longrightarrow>
       calls s = c0 @ stops_done p \<and> (\<forall>i. p = Cancel_stopTranscoder i \<longrightarrow> i \<le> n)"
  shows "stop_inv c0 n (s, pcs)"
  using assms by (simp add: stop_inv_def)

lemma stopping_active: 
  assumes "stop_inv c0 n (s, pcs)" "i < length pcs" "stopping (pcs ! i)"
  shows "mCancelled s" "count_pcs stopping pcs \<le> 1"
    "calls s = c0 @ stops_done (pcs ! i)"
    "\<And>j. pcs ! i = Cancel_stopTranscoder j \<Longrightarrow> j \<le> n"
proof -
  from count_pcs_nth[OF assms(2), of stopping] assms(3) have pos: "0 < count_pcs stopping pcs" .
  with stop_invD(6)[OF assms(1)] show c: "mCancelled s" by auto
  from stop_invD(7)[OF assms(1) c] show "count_pcs stopping pcs \<le> 1" .
  have "pcs ! i \<in> set pcs" using assms(2) by simp
  from stop_invD(9)[OF assms(1) c this assms(3)]
  show "calls s = c0 @ stops_done (pcs ! i)" "\<And>j. pcs ! i = Cancel_stopTranscoder j \<Longrightarrow> j \<le> n"
    by simp_all
qed

lemma stop_inv_neutral:
  assumes inv: "stop_inv c0 n (s, pcs)" and i: "i < length pcs"
    and p: "\<not> stopping (pcs ! i)"
    and q: "\<not> stopping q" "q \<noteq> Fault"
      "\<And>status. q = Cancel_return status \<Longrightarrow> status = AMEDIA_OK \<and> mCancelled s"
    and cr: "\<forall>p\<in>set created. p = Cancel_entry"
    and same: "mCancelled s' = mCancelled s" "calls s' = calls s"
      "mSampleWriter s' = mSampleWriter s" "mSampleReader s' = mSampleReader s"
      "mTrackTranscoders s' = mTrackTranscoders s"
  shows "stop_inv c0 n (s', pcs[i := q] @ created)"
proof -
  note d = stop_invD[OF inv]
  have crz: "count_pcs stopping created = 0" using cr by (auto simp: count_pcs_zero)
  have cnt: "count_pcs stopping (pcs[i := q] @ created) = count_pcs stopping pcs"
    using count_pcs_update[of i pcs stopping q] i p q(1) crz by (simp add: count_pcs_append)
  have mem: "p \<in> set pcs \<or> p = q \<or> p = Cancel_entry" if "p \<in> set (pcs[i := q] @ created)" for p
    using that cr by (auto dest: in_set_updateD)
  show ?thesis
  proof (rule stop_invI)
    show "mSampleWriter s' \<noteq> None" "mSampleReader s' \<noteq> None" "length (mTrackTranscoders s') = n"
      using d(1,2,3) same by simp_all
    show "Fault \<notin> set (pcs[i := q] @ created)" using mem d(4) q(2) by blast
    show "status = AMEDIA_OK \<and> mCancelled s'" if "Cancel_return status \<in> set (pcs[i := q] @ created)"
      for status
      using mem[OF that] d(5)[of status] q(3)[of status] same(1) by auto
    show "count_pcs stopping (pcs[i := q] @ created) = 0 \<and> calls s' = c0" if "\<not> mCancelled s'"
      using that d(6) cnt same by simp
    show "count_pcs stopping (pcs[i := q] @ created) \<le> 1" if "mCancelled s'"
      using that d(7) cnt same by simp
    show "calls s' = c0 @ [WriterStop, ReaderSetEnforceSequentialAccess False]
                       @ map TranscoderStop [0 ..< n]"
      if "mCancelled s'" "count_pcs stopping (pcs[i := q] @ created) = 0"
      using that d(8) cnt same by simp
    show "calls s' = c0 @ stops_done p \<and> (\<forall>i. p = Cancel_stopTranscoder i \<longrightarrow> i \<le> n)"
      if "mCancelled s'" "p \<in> set (pcs[i := q] @ created)" "stopping p" for p
    proof -
      from mem[OF that(2)] that(3) q(1) have "p \<in> set pcs" by auto
      from d(9)[OF _ this that(3)] that(1) same show ?thesis by simp
    qed
  qed
qed

lemma stop_inv_advance:
  assumes inv: "stop_inv c0 n (s, pcs)" and i: "i < length pcs" and p: "stopping (pcs ! i)"
    and same: "mCancelled s' = mCancelled s" "mSampleWriter s' = mSampleWriter s"
      "mSampleReader s' \<noteq> None" "mTrackTranscoders s' = mTrackTranscoders s"
    and q: "q \<noteq> Fault" "\<And>status. q = Cancel_return status \<Longrightarrow> status = AMEDIA_OK"
      "stopping q \<Longrightarrow> calls s' = c0 @ stops_done q
                      \<and> (\<forall>j. q = Cancel_stopTranscoder j \<longrightarrow> j \<le> n)"
      "\<not> stopping q \<Longrightarrow>
         calls s' = c0 @ [WriterStop, ReaderSetEnforceSequentialAccess False]
                       @ map TranscoderStop [0 ..< n]"
  shows "stop_inv c0 n (s', pcs[i := q])"
proof -
  note d = stop_invD[OF inv]
  note a = stopping_active[OF inv i p]
  note u = count_one_update[OF a(2) i p, where q = q]
  have mem: "x \<in> set pcs \<or> x = q" if "x \<in> set (pcs[i := q])" for x
    using that by (auto dest: in_set_updateD)
  show ?thesis
  proof (rule stop_invI)
    show "mSampleWriter s' \<noteq> None" "mSampleReader s' \<noteq> None" "length (mTrackTranscoders s') = n"
      using d(1,3) same by simp_all
    show "Fault \<notin> set (pcs[i := q])" using mem d(4) q(1) by blast
    show "status = AMEDIA_OK \<and> mCancelled s'" if "Cancel_return status \<in> set (pcs[i := q])"
      for status
      using mem[OF that] d(5)[of status] q(2)[of status] same(1) a(1) by auto
    show "count_pcs stopping (pcs[i := q]) = 0 \<and> calls s' = c0" if "\<not> mCancelled s'"
      using that a(1) same(1) by simp
    show "count_pcs stopping (pcs[i := q]) \<le> 1" if "mCancelled s'"
      using u(1) by simp
    show "calls s' = c0 @ [WriterStop, ReaderSetEnforceSequentialAccess False]
                       @ map TranscoderStop [0 ..< n]"
      if "mCancelled s'" "count_pcs stopping (pcs[i := q]) = 0"
    proof -
      from that(2) u(1) have "\<not> stopping q" by (simp split: if_splits)
      then show ?thesis by (rule q(4))
    qed
    show "calls s' = c0 @ stops_done x \<and> (\<forall>j. x = Cancel_stopTranscoder j \<longrightarrow> j \<le> n)"
      if "mCancelled s'" "x \<in> set (pcs[i := q])" "stopping x" for x
    proof -
      from u(2)[OF that(2,3)] have "x = q" .
      with that(3) q(3) show ?thesis by simp
    qed
  qed
qed

lemma stop_inv_win:
  assumes inv: "stop_inv c0 n (s, pcs)" and i: "i < length pcs" and p: "pcs ! i = Cancel_entry"
    and n: "\<not> mCancelled s"
  shows "stop_inv c0 n (s\<lparr>mCancelled := True\<rparr>, pcs[i := Cancel_stopWriter])"
proof -
  note d = stop_invD[OF inv]
  from d(6)[OF n] have z: "count_pcs stopping pcs = 0" and c: "calls s = c0" by simp_all
  from count_pcs_update[of i pcs stopping Cancel_stopWriter] i p z
  have one: "count_pcs stopping (pcs[i := Cancel_stopWriter]) = 1" by simp
  have mem: "x \<in> set pcs \<or> x = Cancel_stopWriter" if "x \<in> set (pcs[i := Cancel_stopWriter])" for x
    using that by (auto dest: in_set_updateD)
  show ?thesis
  proof (rule stop_invI)
    show "mSampleWriter (s\<lparr>mCancelled := True\<rparr>) \<noteq> None"
      "mSampleReader (s\<lparr>mCancelled := True\<rparr>) \<noteq> None"
      "length (mTrackTranscoders (s\<lparr>mCancelled := True\<rparr>)) = n"
      using d(1,2,3) by simp_all
    show "Fault \<notin> set (pcs[i := Cancel_stopWriter])" using mem d(4) by blast
    show "status = AMEDIA_OK \<and> mCancelled (s\<lparr>mCancelled := True\<rparr>)"
      if "Cancel_return status \<in> set (pcs[i := Cancel_stopWriter])" for status
      using mem[OF that] d(5)[of status] by auto
    show "count_pcs stopping (pcs[i := Cancel_stopWriter]) = 0 \<and> calls (s\<lparr>mCancelled := True\<rparr>) = c0"
      if "\<not> mCancelled (s\<lparr>mCancelled := True\<rparr>)"
      using that by simp
    show "count_pcs stopping (pcs[i := Cancel_stopWriter]) \<le> 1" using one by simp
    show "calls (s\<lparr>mCancelled := True\<rparr>)
          = c0 @ [WriterStop, ReaderSetEnforceSequentialAccess False] @ map TranscoderStop [0 ..< n]"
      if "count_pcs stopping (pcs[i := Cancel_stopWriter]) = 0"
      using that one by simp
    show "calls (s\<lparr>mCancelled := True\<rparr>) = c0 @ stops_done x
          \<and> (\<forall>j. x = Cancel_stopTranscoder j \<longrightarrow> j \<le> n)"
      if "x \<in> set (pcs[i := Cancel_stopWriter])" "stopping x" for x
    proof -
      from mem[OF that(1)] have "x = Cancel_stopWriter"
      proof
        assume "x \<in> set pcs"
        with z that(2) show ?thesis by (simp add: count_pcs_zero)
      qed
      with c show ?thesis by simp
    qed
  qed
qed

lemma stop_inv_step:
  assumes "stop_inv c0 n c"
  shows "stop_inv c0 n (sched_step i c)"
proof -
  obtain s pcs where c: "c = (s, pcs)" by (cases c)
  with assms have inv: "stop_inv c0 n (s, pcs)" by simp
  note d = stop_invD[OF inv]
  show ?thesis
  proof (cases "i < length pcs \<and> Fault \<notin> set pcs")
    case False
    then have "sched_step i (s, pcs) = (s, pcs)" by (rule sched_step_idle)
    with assms c show ?thesis by simp
  next
    case True
    then have i: "i < length pcs" and nf: "Fault \<notin> set pcs" by simp_all
    have mem: "pcs ! i \<in> set pcs" using i by simp
    have goal: "stop_inv c0 n (s', pcs[i := q] @ created)"
      if "thread_step s (pcs ! i) = (s', q, created)" for s' q created
    proof (cases "pcs ! i")
      case (SendCallback_entry status)
      with that have "s' = s" "created = []" "\<not> stopping q" "q \<noteq> Fault"
        "\<And>st. q \<noteq> Cancel_return st"
        by (auto split: if_splits)
      with stop_inv_neutral[OF inv i, of q "[]" s] SendCallback_entry show ?thesis by simp
    next
      case (SendCallback_exchange status)
      with that have "q = SendCallback_notify status \<or> q = SendCallback_return" "created = []"
        "mCancelled s' = mCancelled s" "calls s' = calls s" "mSampleWriter s' = mSampleWriter s"
        "mSampleReader s' = mSampleReader s" "mTrackTranscoders s' = mTrackTranscoders s"
        by (auto split: if_splits)
      with stop_inv_neutral[OF inv i, of q "[]" s'] SendCallback_exchange show ?thesis by auto
    next
      case (SendCallback_notify status)
      with that have "q = SendCallback_detach" "created = []"
        "mCancelled s' = mCancelled s" "calls s' = calls s" "mSampleWriter s' = mSampleWriter s"
        "mSampleReader s' = mSampleReader s" "mTrackTranscoders s' = mTrackTranscoders s"
        by auto
      with stop_inv_neutral[OF inv i, of q "[]" s'] SendCallback_notify show ?thesis by auto
    next
      case SendCallback_detach
      with that have "q = SendCallback_return" "created = [Cancel_entry]"
        "mCancelled s' = mCancelled s" "calls s' = calls s" "mSampleWriter s' = mSampleWriter s"
        "mSampleReader s' = mSampleReader s" "mTrackTranscoders s' = mTrackTranscoders s"
        by auto
      with stop_inv_neutral[OF inv i, of q "[Cancel_entry]" s'] SendCallback_detach
      show ?thesis by auto
    next
      case SendCallback_return
      with that have "q = SendCallback_return" "created = []" "s' = s" by auto
      with stop_inv_neutral[OF inv i, of q "[]" s] SendCallback_return show ?thesis by auto
    next
      case Cancel_entry
      show ?thesis
      proof (cases "mCancelled s")
        case True
        with that Cancel_entry have "q = Cancel_return AMEDIA_OK" "created = []" "s' = s" by auto
        with stop_inv_neutral[OF inv i, of q "[]" s] Cancel_entry True show ?thesis by auto
      next
        case False
        with that Cancel_entry have "q = Cancel_stopWriter" "created = []"
          "s' = s\<lparr>mCancelled := True\<rparr>" by auto
        with stop_inv_win[OF inv i Cancel_entry False] show ?thesis by simp
      qed
    next
      case Cancel_stopWriter
      then have st: "stopping (pcs ! i)" by simp
      note a = stopping_active[OF inv i st]
      from d(1) obtain w where "mSampleWriter s = Some w" by auto
      with that Cancel_stopWriter have "q = Cancel_setSequential" "created = []"
        "s' = s\<lparr>calls := calls s @ [WriterStop]\<rparr>" by auto
      with stop_inv_advance[OF inv i st, of s' q] a(3) d(2) Cancel_stopWriter
      show ?thesis by simp
    next
      case Cancel_setSequential
      then have st: "stopping (pcs ! i)" by simp
      note a = stopping_active[OF inv i st]
      from d(2) obtain r where "mSampleReader s = Some r" by auto
      with that Cancel_setSequential have "q = Cancel_stopTranscoder 0" "created = []"
        "s' = s\<lparr>mSampleReader := Some (setEnforceSequentialAccess r False),
                   calls := calls s @ [ReaderSetEnforceSequentialAccess False]\<rparr>" by auto
      with stop_inv_advance[OF inv i st, of s' q] a(3) Cancel_setSequential
      show ?thesis by simp
    next
      case (Cancel_stopTranscoder j)
      then have st: "stopping (pcs ! i)" by simp
      note a = stopping_active[OF inv i st]
      from a(4)[OF Cancel_stopTranscoder] have jn: "j \<le> n" .
      show ?thesis
      proof (cases "j < n")
        case True
        with that Cancel_stopTranscoder d(3) have "q = Cancel_stopTranscoder (Suc j)" "created = []"
          "s' = s\<lparr>calls := calls s @ [TranscoderStop j]\<rparr>" by auto
        with stop_inv_advance[OF inv i st, of s' q] a(3) d(2) Cancel_stopTranscoder True
        show ?thesis by simp
      next
        case False
        with jn have "j = n" by simp
        with that Cancel_stopTranscoder d(3) have "q = Cancel_return AMEDIA_OK" "created = []"
          "s' = s" by auto
        with stop_inv_advance[OF inv i st, of s' q] a(3) d(2) Cancel_stopTranscoder \<open>j = n\<close>
        show ?thesis by simp
      qed
    next
      case (Cancel_return status)
      with that have "q = Cancel_return status" "created = []" "s' = s" by auto
      with stop_inv_neutral[OF inv i, of q "[]" s] Cancel_return d(5)[of status] mem
      show ?thesis by auto
    next
      case Fault
      with mem nf show ?thesis by simp
    qed
    obtain s' q created where t: "thread_step s (pcs ! i) = (s', q, created)"
      by (cases "thread_step s (pcs ! i)")
    with True have "sched_step i (s, pcs) = (s', pcs[i := q] @ created)" by simp
    with goal[OF t] c show ?thesis by simp
  qed
qed

lemma work_left_update:
  "i < length pcs \<Longrightarrow>
   work_left n (pcs[i := q] @ created) + steps_left n (pcs ! i)
   = work_left n pcs + steps_left n q + work_left n created"
proof (induction pcs arbitrary: i)
  case Nil
  then show ?case by simp
next
  case (Cons p pcs)
  show ?case
  proof (cases i)
    case 0
    then show ?thesis by (simp add: work_left_def)
  next
    case (Suc j)
    with Cons.prems have "j < length pcs" by simp
    from Cons.IH[OF this] Suc show ?thesis by (simp add: work_left_def)
  qed
qed

lemma thread_step_work:
  assumes "thread_step s p = (s', q, created)" "\<not> returned p" "p \<noteq> Fault"
    "length (mTrackTranscoders s) = n"
  shows "steps_left n q + work_left n created < steps_left n p"
  using assms by (cases p) (auto simp: work_left_def split: if_splits option.splits)

lemma work_left_zero: "work_left n pcs = 0 \<Longrightarrow> Fault \<notin> set pcs \<Longrightarrow> \<forall>p\<in>set pcs. returned p"
proof (induction pcs)
  case Nil
  then show ?case by simp
next
  case (Cons p pcs)
  then have "steps_left n p = 0" "work_left n pcs = 0" "p \<noteq> Fault" "Fault \<notin> set pcs"
    by (auto simp: work_left_def)
  moreover from this(1,3) have "returned p" by (cases p) simp_all
  ultimately show ?case using Cons.IH by simp
qed

lemma can_complete:
  assumes "stop_inv c0 n c"
  shows "\<exists>more. \<forall>p\<in>set (snd (exec more c)). returned p"
  using assms
proof (induction "work_left n (snd c)" arbitrary: c rule: less_induct)
  case less
  obtain s pcs where c: "c = (s, pcs)" by (cases c)
  with less.prems have inv: "stop_inv c0 n (s, pcs)" by simp
  note d = stop_invD[OF inv]
  show ?case
  proof (cases "\<forall>p\<in>set pcs. returned p")
    case True
    with c have "\<forall>p\<in>set (snd (exec [] c)). returned p" by simp
    then show ?thesis by blast
  next
    case False
    then obtain i where i: "i < length pcs" "\<not> returned (pcs ! i)"
      by (auto simp: in_set_conv_nth)
    have nf: "pcs ! i \<noteq> Fault" using d(4) i(1) nth_mem by metis
    obtain s' q created where t: "thread_step s (pcs ! i) = (s', q, created)"
      by (cases "thread_step s (pcs ! i)")
    with i(1) d(4) have st: "sched_step i c = (s', pcs[i := q] @ created)"
      using c by simp
    from thread_step_work[OF t i(2) nf d(3)] work_left_update[OF i(1), of n q created]
    have "work_left n (snd (sched_step i c)) < work_left n (snd c)"
      using st c by simp
    from less.hyps[OF this stop_inv_step[OF less.prems]]
    obtain more where "\<forall>p\<in>set (snd (exec more (sched_step i c))). returned p" by blast
    then have "\<forall>p\<in>set (snd (exec (i # more) c)). returned p" by simp
    then show ?thesis by blast
  qed
qed

text \<open>
  A thread that runs alone does what the function does: \<^verbatim>\<open>sendCallback\<close> in four steps,
  \<^verbatim>\<open>cancel\<close> in four steps and one more for every transcoder.
\<close>

lemma alone_sendCallback:
  "exec [0, 0, 0, 0] (s, [SendCallback_entry status])
   = (sendCallback s status,
      SendCallback_return
      # (if \<not> mCallbackSent s \<and> \<not> (mCancelled s \<and> status \<noteq> AMEDIA_OK)
         then [Cancel_entry] else []))"
  by (simp add: sendCallback_def)

lemma returned_stays:
  "exec (replicate k 0) (s, [Cancel_return status]) = (s, [Cancel_return status])"
  by (induction k) simp_all

lemma alone_stop_transcoders:
  "i \<le> length (mTrackTranscoders s) \<Longrightarrow>
   exec (replicate (Suc (length (mTrackTranscoders s) - i)) 0) (s, [Cancel_stopTranscoder i])
   = (s\<lparr>calls := calls s @ map TranscoderStop [i ..< length (mTrackTranscoders s)]\<rparr>,
      [Cancel_return AMEDIA_OK])"
proof (induction "length (mTrackTranscoders s) - i" arbitrary: s i)
  case 0
  then show ?case by simp
next
  case (Suc d)
  let ?s1 = "s\<lparr>calls := calls s @ [TranscoderStop i]\<rparr>"
  from Suc.hyps(2) have lt: "i < length (mTrackTranscoders s)" by simp
  from Suc.hyps(2) have d: "d = length (mTrackTranscoders ?s1) - Suc i"
    and le: "Suc i \<le> length (mTrackTranscoders ?s1)" by simp_all
  from Suc.hyps(1)[OF d le]
  have ih: "exec (replicate (Suc (length (mTrackTranscoders s) - Suc i)) 0)
              (?s1, [Cancel_stopTranscoder (Suc i)])
            = (s\<lparr>calls := calls s @ [TranscoderStop i]
                       @ map TranscoderStop [Suc i ..< length (mTrackTranscoders s)]\<rparr>,
               [Cancel_return AMEDIA_OK])"
    by simp
  have r: "replicate (Suc (length (mTrackTranscoders s) - i)) (0::nat)
           = 0 # replicate (Suc (length (mTrackTranscoders s) - Suc i)) 0"
    using lt by (simp add: Suc_diff_Suc)
  have u: "[i ..< length (mTrackTranscoders s)] = i # [Suc i ..< length (mTrackTranscoders s)]"
    using lt by (rule upt_conv_Cons)
  show ?case unfolding r u using lt ih by simp
qed

lemma alone_cancel:
  assumes "mSampleWriter s \<noteq> None" "mSampleReader s \<noteq> None"
  shows "\<exists>s1. cancel s = Inr (s1, AMEDIA_OK)
              \<and> exec (replicate (length (mTrackTranscoders s) + 4) 0) (s, [Cancel_entry])
                = (s1, [Cancel_return AMEDIA_OK])"
proof (cases "mCancelled s")
  case True
  have "exec (replicate (length (mTrackTranscoders s) + 4) 0) (s, [Cancel_entry])
        = exec (replicate (length (mTrackTranscoders s) + 3) 0) (s, [Cancel_return AMEDIA_OK])"
    using True by (simp add: numeral_eq_Suc)
  with True show ?thesis by (simp add: cancel_already returned_stays)
next
  case False
  from assms obtain w r where wr: "mSampleWriter s = Some w" "mSampleReader s = Some r" by auto
  let ?n = "length (mTrackTranscoders s)"
  let ?s3 = "s\<lparr>mCancelled := True,
                mSampleReader := Some (r\<lparr>rd_sequential := False\<rparr>),
                calls := calls s @ [WriterStop, ReaderSetEnforceSequentialAccess False]\<rparr>"
  have "replicate (?n + 4) (0::nat) = [0, 0, 0] @ replicate (Suc (?n - 0)) 0"
    by (simp add: numeral_eq_Suc)
  then have "exec (replicate (?n + 4) 0) (s, [Cancel_entry])
        = exec (replicate (Suc (?n - 0)) 0) (exec [0, 0, 0] (s, [Cancel_entry]))"
    by (simp only: exec_append)
  also have "exec [0, 0, 0] (s, [Cancel_entry]) = (?s3, [Cancel_stopTranscoder 0])"
    using False wr by (simp add: setEnforceSequentialAccess_def)
  also have "exec (replicate (Suc (?n - 0)) 0) (?s3, [Cancel_stopTranscoder 0])
        = (?s3\<lparr>calls := calls ?s3 @ map TranscoderStop [0 ..< ?n]\<rparr>, [Cancel_return AMEDIA_OK])"
    using alone_stop_transcoders[of 0 ?s3] by simp
  finally have e: "exec (replicate (?n + 4) 0) (s, [Cancel_entry])
        = (?s3\<lparr>calls := calls ?s3 @ map TranscoderStop [0 ..< ?n]\<rparr>, [Cancel_return AMEDIA_OK])" .
  from cancel_configured[OF False wr]
  have "cancel s = Inr (?s3\<lparr>calls := calls ?s3 @ map TranscoderStop [0 ..< ?n]\<rparr>, AMEDIA_OK)"
    by (simp add: stop_sequence_def)
  with e show ?thesis by blast
qed

lemma alone_cancel_null:
  assumes "\<not> mCancelled s" "mSampleWriter s = None \<or> mSampleReader s = None"
  shows "cancel s = Inl NullDereference"
    and "Fault \<in> set (snd (exec [0, 0, 0] (s, [Cancel_entry])))"
  using assms by (auto simp: cancel_null split: option.splits)

section \<open>Cancelling more than once\<close>

lemma stops_done_prefix:
  assumes "stopping p" "\<And>j. p = Cancel_stopTranscoder j \<Longrightarrow> j \<le> n"
  shows "\<exists>m. stops_done p
             = take m ([WriterStop, ReaderSetEnforceSequentialAccess False]
                       @ map TranscoderStop [0 ..< n])"
proof (cases p)
  case Cancel_stopWriter
  then show ?thesis by (intro exI[of _ 0]) simp
next
  case Cancel_setSequential
  then show ?thesis by (intro exI[of _ 1]) simp
next
  case (Cancel_stopTranscoder j)
  with assms(2) have "j \<le> n" by simp
  then have "take j [0 ..< n] = [0 ..< j]" by (simp add: take_upt)
  then have "stops_done p
             = take (Suc (Suc j)) ([WriterStop, ReaderSetEnforceSequentialAccess False]
                                   @ map TranscoderStop [0 ..< n])"
    using Cancel_stopTranscoder by (simp add: take_map)
  then show ?thesis by blast
qed (use assms(1) in simp_all)

lemma entry_point_idle:
  "entry_point p \<Longrightarrow> \<not> stopping p \<and> \<not> notifying p \<and> \<not> returned p \<and> p \<noteq> Fault"
  by (cases p) simp_all

lemma stop_inv_initial:
  assumes "mSampleWriter s \<noteq> None" "mSampleReader s \<noteq> None" "\<not> mCancelled s"
    "\<forall>p\<in>set pcs. entry_point p"
  shows "stop_inv (calls s) (length (mTrackTranscoders s)) (s, pcs)"
proof (rule stop_invI)
  show "count_pcs stopping pcs = 0 \<and> calls s = calls s"
    using assms(4) entry_point_idle by (auto simp: count_pcs_zero)
  show "Fault \<notin> set pcs" using assms(4) entry_point_idle by blast
  show "status = AMEDIA_OK \<and> mCancelled s" if "Cancel_return status \<in> set pcs" for status
    using that assms(4) entry_point_idle[of "Cancel_return status"] by auto
qed (use assms in simp_all)

lemma stop_inv_exec:
  assumes "stop_inv c0 n c"
  shows "stop_inv c0 n (exec sched c)"
  using assms by (rule exec_invariant) (rule stop_inv_step)

text \<open>
  C4. The claim is that \<^verbatim>\<open>cancel\<close>, on every session, performs the stop sequence once
  and returns success at every call. The code does not do so on a session whose writer or
  reader is not configured: the first call of \<^verbatim>\<open>cancel\<close> sets the cancelled flag and
  then calls \<^verbatim>\<open>stop\<close> through the null writer pointer, or
  \<^verbatim>\<open>setEnforceSequentialAccess\<close> through the null reader pointer. It does not complete
  the stop sequence and does not return. On a new session the thread that runs
  \<^verbatim>\<open>cancel\<close> ends in a fault after its second step, with the flag set and no call made.
  The same happens with the source alone, with the source and its tracks, and with the
  destination alone. \<^verbatim>\<open>start\<close> and \<^verbatim>\<open>configureTrackFormat\<close> test the pointers they use:
  with the tracks configured and no destination \<^verbatim>\<open>start\<close> returns
  \<^verbatim>\<open>AMEDIA_ERROR_INVALID_OPERATION\<close>, and so does \<^verbatim>\<open>configureTrackFormat\<close> on a new
  session, and both leave the session as it was.
\<close>

theorem cancel_unconfigured_fault:
  "cancel (create demo_store) = Inl NullDereference
   \<and> snd (exec [0, 0] (create demo_store, [Cancel_entry])) = [Fault]
   \<and> calls (fst (exec [0, 0] (create demo_store, [Cancel_entry]))) = []
   \<and> mCancelled (fst (exec [0, 0] (create demo_store, [Cancel_entry])))
   \<and> cancel demo_source = Inl NullDereference
   \<and> cancel demo_tracks = Inl NullDereference
   \<and> cancel demo_destination_only = Inl NullDereference
   \<and> start demo_tracks = Inr (demo_tracks, AMEDIA_ERROR_INVALID_OPERATION)
   \<and> configureTrackFormat (create demo_store) 0 None demo_answers
       = (create demo_store, AMEDIA_ERROR_INVALID_OPERATION)"
proof -
  have c: "cancel (create demo_store) = Inl NullDereference"
    "cancel demo_source = Inl NullDereference"
    "cancel demo_tracks = Inl NullDereference"
    "cancel demo_destination_only = Inl NullDereference"
    by (simp_all add: cancel_def create_def Let_def demo_source_eq demo_tracks_eq
          demo_destination_only_eq)
  have e: "exec [0, 0] (create demo_store, [Cancel_entry])
           = ((create demo_store)\<lparr>mCancelled := True\<rparr>, [Fault])"
    by (simp add: create_def Let_def)
  have g: "start demo_tracks = Inr (demo_tracks, AMEDIA_ERROR_INVALID_OPERATION)"
    "configureTrackFormat (create demo_store) 0 None demo_answers
       = (create demo_store, AMEDIA_ERROR_INVALID_OPERATION)"
    by (simp_all add: start_def configureTrackFormat_def create_def demo_tracks_eq)
  from c e g show ?thesis by (simp add: create_def)
qed

text \<open>
  Where the reader and the writer are there, \<^verbatim>\<open>cancel\<close> stops the session once. Take a
  session whose source reader and destination writer are there and that is not yet
  cancelled, and any pool of calls of \<^verbatim>\<open>cancel\<close> and of \<^verbatim>\<open>sendCallback\<close> (whose
  detached threads call \<^verbatim>\<open>cancel\<close> too) that run as threads under any schedule. At
  every moment the calls made on the collaborators are the calls made before followed by
  a prefix of one stop sequence (stop the writer, switch off sequential access of the
  reader, stop every transcoder in list order): the sequence is never begun twice. No
  thread faults, and a call of \<^verbatim>\<open>cancel\<close> that has returned has returned \<^verbatim>\<open>AMEDIA_OK\<close>.
  Once every thread has returned and one of them was a call of \<^verbatim>\<open>cancel\<close>, the stop
  sequence has been performed exactly once; and every schedule can be continued until
  every thread has returned. Called one after the other, the first \<^verbatim>\<open>cancel\<close> performs
  the stop sequence and returns \<^verbatim>\<open>AMEDIA_OK\<close>, and every later one returns \<^verbatim>\<open>AMEDIA_OK\<close>
  and changes nothing.
\<close>

theorem cancel_once:
  assumes "mSampleWriter s \<noteq> None" "mSampleReader s \<noteq> None" "\<not> mCancelled s"
      and "\<forall>p\<in>set pcs. entry_point p"
      and "exec sched (s, pcs) = (s', pcs')"
  shows "(\<exists>m. calls s' = calls s @ take m (stop_sequence s))
       \<and> Fault \<notin> set pcs'
       \<and> (\<forall>status. Cancel_return status \<in> set pcs' \<longrightarrow> status = AMEDIA_OK)
       \<and> ((\<forall>p\<in>set pcs'. returned p) \<longrightarrow> (\<exists>status. Cancel_return status \<in> set pcs') \<longrightarrow>
             calls s' = calls s @ stop_sequence s \<and> mCancelled s')
       \<and> (\<exists>more. \<forall>p\<in>set (snd (exec more (s', pcs'))). returned p)
       \<and> (\<exists>s1. cancel s = Inr (s1, AMEDIA_OK) \<and> calls s1 = calls s @ stop_sequence s
                \<and> mCancelled s1 \<and> cancel s1 = Inr (s1, AMEDIA_OK))"
proof -
  let ?n = "length (mTrackTranscoders s)"
  let ?full = "[WriterStop, ReaderSetEnforceSequentialAccess False] @ map TranscoderStop [0 ..< ?n]"
  have full: "stop_sequence s = ?full" by (simp add: stop_sequence_def)
  from stop_inv_exec[OF stop_inv_initial[OF assms(1-4)], of sched] assms(5)
  have inv: "stop_inv (calls s) ?n (s', pcs')" by simp
  note d = stop_invD[OF inv]
  have pre: "\<exists>m. calls s' = calls s @ take m (stop_sequence s)"
  proof (cases "mCancelled s'")
    case False
    with d(6) have "calls s' = calls s @ take 0 (stop_sequence s)" by simp
    then show ?thesis by blast
  next
    case True
    show ?thesis
    proof (cases "count_pcs stopping pcs' = 0")
      case z: True
      from d(8)[OF True z] full
      have "calls s' = calls s @ take (length (stop_sequence s)) (stop_sequence s)" by simp
      then show ?thesis by blast
    next
      case False
      then obtain p where p: "p \<in> set pcs'" "stopping p" by (auto simp: count_pcs_zero)
      from d(9)[OF True p] have c: "calls s' = calls s @ stops_done p"
        and b: "\<And>j. p = Cancel_stopTranscoder j \<Longrightarrow> j \<le> ?n" by simp_all
      from stops_done_prefix[OF p(2) b] obtain m where "stops_done p = take m ?full" by blast
      with c full show ?thesis by auto
    qed
  qed
  have ok: "\<forall>status. Cancel_return status \<in> set pcs' \<longrightarrow> status = AMEDIA_OK"
    using d(5) by blast
  have fin: "calls s' = calls s @ stop_sequence s \<and> mCancelled s'"
    if q: "\<forall>p\<in>set pcs'. returned p" and r: "\<exists>status. Cancel_return status \<in> set pcs'"
  proof -
    from r d(5) have c: "mCancelled s'" by blast
    have "\<not> stopping p" if "p \<in> set pcs'" for p
      using q that by (cases p) auto
    then have "count_pcs stopping pcs' = 0" by (simp add: count_pcs_zero)
    from d(8)[OF c this] full c show ?thesis by simp
  qed
  from assms(1,2) obtain w r where wr: "mSampleWriter s = Some w" "mSampleReader s = Some r"
    by auto
  let ?s1 = "s\<lparr>mCancelled := True, mSampleReader := Some (r\<lparr>rd_sequential := False\<rparr>),
                calls := calls s @ stop_sequence s\<rparr>"
  from cancel_configured[OF assms(3) wr] have c1: "cancel s = Inr (?s1, AMEDIA_OK)" .
  have c2: "cancel ?s1 = Inr (?s1, AMEDIA_OK)" by (rule cancel_already) simp
  have sq: "\<exists>s1. cancel s = Inr (s1, AMEDIA_OK) \<and> calls s1 = calls s @ stop_sequence s
                \<and> mCancelled s1 \<and> cancel s1 = Inr (s1, AMEDIA_OK)"
    using c1 c2 by (intro exI[of _ ?s1]) simp
  note cc = can_complete[OF inv]
  from pre d(4) ok fin cc sq show ?thesis by blast
qed

lemma demo_three_cancels:
  "exec [1, 0, 1, 2, 1, 0, 1, 1, 2, 1] (demo_started, [Cancel_entry, Cancel_entry, Cancel_entry])
   = (demo_cancelled,
      [Cancel_return AMEDIA_OK, Cancel_return AMEDIA_OK, Cancel_return AMEDIA_OK])"
  by (simp add: demo_cancelled_eq demo_started_eq demo_session_eq demo_tracks_eq
        setEnforceSequentialAccess_def)

theorem cancel_once_witness:
  "mSampleWriter demo_started \<noteq> None \<and> mSampleReader demo_started \<noteq> None
   \<and> \<not> mCancelled demo_started
   \<and> list_all entry_point [Cancel_entry, Cancel_entry, Cancel_entry]
   \<and> exec [1, 0, 1, 2, 1, 0, 1, 1, 2, 1]
         (demo_started, [Cancel_entry, Cancel_entry, Cancel_entry])
       = (demo_cancelled,
          [Cancel_return AMEDIA_OK, Cancel_return AMEDIA_OK, Cancel_return AMEDIA_OK])
   \<and> list_all returned [Cancel_return AMEDIA_OK, Cancel_return AMEDIA_OK, Cancel_return AMEDIA_OK]
   \<and> calls demo_cancelled = calls demo_started @ stop_sequence demo_started
   \<and> stop_sequence demo_started
       = [WriterStop, ReaderSetEnforceSequentialAccess False, TranscoderStop 0, TranscoderStop 1]
   \<and> mCancelled demo_cancelled"
proof -
  have a: "mSampleWriter demo_started \<noteq> None" "mSampleReader demo_started \<noteq> None"
    "\<not> mCancelled demo_started"
    by (simp_all add: demo_started_eq demo_session_eq demo_tracks_eq)
  have e: "\<forall>p\<in>set [Cancel_entry, Cancel_entry, Cancel_entry]. entry_point p" by simp
  have q: "\<forall>p\<in>set [Cancel_return AMEDIA_OK, Cancel_return AMEDIA_OK, Cancel_return AMEDIA_OK].
             returned p"
    "\<exists>status. Cancel_return status
       \<in> set [Cancel_return AMEDIA_OK, Cancel_return AMEDIA_OK, Cancel_return AMEDIA_OK]"
    by simp_all
  have sq: "stop_sequence demo_started
       = [WriterStop, ReaderSetEnforceSequentialAccess False, TranscoderStop 0, TranscoderStop 1]"
    by (simp add: stop_sequence_def demo_started_eq demo_session_eq demo_tracks_eq upt_rec)
  from cancel_once[OF a e demo_three_cancels] q
  have "calls demo_cancelled = calls demo_started @ stop_sequence demo_started
        \<and> mCancelled demo_cancelled"
    by blast
  with a demo_three_cancels sq show ?thesis by simp
qed

section \<open>The terminal callback\<close>

lemma callback_inv_exec:
  assumes "callback_inv S c0 b0 c"
  shows "callback_inv S c0 b0 (exec sched c)"
  using assms by (rule exec_invariant) (rule callback_inv_step)

lemma started_inv_exec:
  assumes "started_inv c"
  shows "started_inv (exec sched c)"
  using assms by (rule exec_invariant) (rule started_inv_step)

lemma sched_step_length: "length (snd c) \<le> length (snd (sched_step i c))"
  by (cases c) (auto split: prod.splits)

lemma exec_length: "length (snd c) \<le> length (snd (exec sched c))"
proof (induction sched arbitrary: c)
  case Nil
  then show ?case by simp
next
  case (Cons i sched)
  from sched_step_length[of c i] Cons[of "sched_step i c"] show ?case by simp
qed

lemma handle_sent:
  assumes "mCallbackSent s" "handle s ev = Inr s'"
  shows "mCallbackSent s' \<and> terminal_calls s' = terminal_calls s"
proof (cases ev)
  case (TrackFormatAvailable t fmt)
  with assms show ?thesis
    by (auto simp: onTrackFormatAvailable_def Let_def sendCallback_later terminal_calls_def
             split: if_splits option.splits)
next
  case (TrackError t status)
  with assms show ?thesis by (simp add: onTrackError_def sendCallback_later)
next
  case (WriterFinished status)
  with assms show ?thesis by (simp add: onFinished_def sendCallback_later)
next
  case CancelCall
  with assms obtain r where "cancel s = Inr (s', r)"
    by (auto simp: dropping_status_def split: sum.splits)
  from cancel_callbacks[OF this] assms(1) show ?thesis by (simp add: terminal_calls_def)
next
  case PauseCall
  with assms obtain r where "cancel s = Inr (s', r)"
    by (auto simp: dropping_status_def pause_def split: sum.splits)
  from cancel_callbacks[OF this] assms(1) show ?thesis by (simp add: terminal_calls_def)
next
  case StartCall
  with assms obtain r where "start s = Inr (s', r)"
    by (auto simp: dropping_status_def split: sum.splits)
  from start_callbacks[OF this] assms(1) show ?thesis by (simp add: terminal_calls_def)
next
  case ResumeCall
  with assms obtain r where "start s = Inr (s', r)"
    by (auto simp: dropping_status_def resume_def split: sum.splits)
  from start_callbacks[OF this] assms(1) show ?thesis by (simp add: terminal_calls_def)
qed (use assms in \<open>auto simp: onTrackFinished_def onProgressUpdate_def terminal_calls_def\<close>)

lemma run_sent:
  assumes "mCallbackSent s" "run s evs = Inr s'"
  shows "terminal_calls s' = terminal_calls s"
  using assms
proof (induction evs arbitrary: s)
  case Nil
  then show ?case by simp
next
  case (Cons ev evs)
  from Cons.prems(2) obtain s1 where h: "handle s ev = Inr s1" and r: "run s1 evs = Inr s'"
    by (auto split: sum.splits)
  from handle_sent[OF Cons.prems(1) h] Cons.IH[OF _ r] show ?case by simp
qed

lemma run_first_terminal:
  assumes "\<not> mCancelled s" "\<not> mCallbackSent s" "terminal_status ev = Some status"
    "run s (ev # evs) = Inr s'"
  shows "terminal_calls s' = terminal_calls s @ [client_call_of status]"
proof -
  from assms(3) have h: "handle s ev = Inr (sendCallback s status)"
    by (cases ev) (simp_all add: onTrackError_def onFinished_def)
  with assms(4) have r: "run (sendCallback s status) evs = Inr s'" by simp
  have "mCallbackSent (sendCallback s status)" using assms(1) by (simp add: sendCallback_sent)
  from run_sent[OF this r] assms(1,2) show ?thesis
    by (simp add: terminal_calls_sendCallback)
qed

lemma demo_race:
  "exec [0, 1, 1, 0, 1, 1, 2, 2, 2, 2, 2, 2]
     (demo_started, [SendCallback_entry AMEDIA_ERROR_UNKNOWN, SendCallback_entry AMEDIA_OK])
   = (demo_cancelled\<lparr>mCallbackSent := True, mCallbacks := [ClientFinished],
                      asyncCancelThreads := 1\<rparr>,
      [SendCallback_return, SendCallback_return, Cancel_return AMEDIA_OK])"
  by (simp add: demo_cancelled_eq demo_started_eq demo_session_eq demo_tracks_eq
        setEnforceSequentialAccess_def client_call_of_def)

text \<open>
  C1, as the claim states it, fails: after \<^verbatim>\<open>start\<close> has succeeded the client may
  receive no terminal callback at all, and the first terminal event need not be the one
  that is delivered. In the session of the scenario, \<^verbatim>\<open>start\<close> returns \<^verbatim>\<open>AMEDIA_OK\<close>
  and the client then calls \<^verbatim>\<open>cancel\<close>. When a track error and a writer error follow,
  the client receives nothing; when a track error and then the writer's success follow,
  the client receives \<^verbatim>\<open>onFinished\<close>, for the second event.
\<close>

theorem terminal_callback_counterexample:
  "start demo_session = Inr (demo_started, AMEDIA_OK)
   \<and> cancel demo_started = Inr (demo_cancelled, AMEDIA_OK)
   \<and> map_sum id mCallbacks
         (run demo_cancelled
            [TrackError 0 AMEDIA_ERROR_UNKNOWN, WriterFinished AMEDIA_ERROR_UNKNOWN]) = Inr []
   \<and> map_sum id mCallbacks
         (run demo_cancelled [TrackError 0 AMEDIA_ERROR_UNKNOWN, WriterFinished AMEDIA_OK])
       = Inr [ClientFinished]"
proof -
  have 1: "start demo_session = Inr (demo_started, AMEDIA_OK)"
    by (simp add: demo_started_eq start_def demo_session_eq demo_tracks_eq)
  have 2: "cancel demo_started = Inr (demo_cancelled, AMEDIA_OK)"
    by (simp add: demo_cancelled_eq demo_started_eq cancel_def demo_session_eq demo_tracks_eq
          setEnforceSequentialAccess_def Let_def upt_rec)
  have 3: "map_sum id mCallbacks
         (run demo_cancelled
            [TrackError 0 AMEDIA_ERROR_UNKNOWN, WriterFinished AMEDIA_ERROR_UNKNOWN]) = Inr []"
    "map_sum id mCallbacks
         (run demo_cancelled [TrackError 0 AMEDIA_ERROR_UNKNOWN, WriterFinished AMEDIA_OK])
       = Inr [ClientFinished]"
    by (simp_all add: demo_cancelled_eq demo_session_eq demo_tracks_eq onTrackError_def
          onFinished_def sendCallback_def client_call_of_def)
  from 1 2 3 show ?thesis by simp
qed

text \<open>
  C1 (amended). The client receives at most one terminal callback, never both kinds and
  never two, whatever the interleaving: for any pool of calls of \<^verbatim>\<open>sendCallback\<close> and
  \<^verbatim>\<open>cancel\<close> that run as threads under any schedule, from a session whose callback
  flag is not set, the client receives what it had received followed by at most one
  terminal callback, and that callback is for the status of one of the events. When in
  addition the session is not cancelled at the start, no call of \<^verbatim>\<open>cancel\<close> comes from
  outside, at least one terminal event arrives and every thread has returned, the client
  has received exactly one terminal callback; and when the reader and the writer are
  there, every schedule can be continued until every thread has returned. When the
  events are handled one after the
  other from a session that is neither cancelled nor has its callback flag set, the
  first terminal event is the one that is delivered, whatever follows; and once the
  callback flag is set no run delivers another terminal callback.
\<close>

theorem terminal_callback_once:
  assumes "\<not> mCallbackSent s"
      and "\<forall>p\<in>set pcs. entry_point p"
      and "exec sched (s, pcs) = (s', pcs')"
  shows "(\<exists>new. mCallbacks s' = mCallbacks s @ new \<and> length new \<le> 1
              \<and> set new \<subseteq> client_call_of ` {status. SendCallback_entry status \<in> set pcs})
       \<and> (\<not> mCancelled s \<longrightarrow> Cancel_entry \<notin> set pcs \<longrightarrow> pcs \<noteq> [] \<longrightarrow>
            (\<forall>p\<in>set pcs'. returned p) \<longrightarrow>
            (\<exists>status. SendCallback_entry status \<in> set pcs
                      \<and> mCallbacks s' = mCallbacks s @ [client_call_of status]))
       \<and> (\<not> mCancelled s \<longrightarrow> mSampleWriter s \<noteq> None \<longrightarrow> mSampleReader s \<noteq> None \<longrightarrow>
            (\<exists>more. \<forall>p\<in>set (snd (exec more (s', pcs'))). returned p))
       \<and> (\<not> mCancelled s \<longrightarrow> terminal_status ev = Some status \<longrightarrow>
            run s (ev # evs) = Inr s2 \<longrightarrow>
            terminal_calls s2 = terminal_calls s @ [client_call_of status])
       \<and> (mCallbackSent s3 \<longrightarrow> run s3 evs = Inr s4 \<longrightarrow> terminal_calls s4 = terminal_calls s3)"
proof -
  let ?S = "{status. SendCallback_entry status \<in> set pcs}"
  have st: "\<forall>p\<in>set pcs. \<forall>status. pc_status p = Some status \<longrightarrow> status \<in> ?S"
  proof (intro ballI allI impI)
    fix p status
    assume "p \<in> set pcs" "pc_status p = Some status"
    with assms(2) show "status \<in> ?S" by (cases p) auto
  qed
  have nz: "count_pcs notifying pcs = 0"
    using assms(2) entry_point_idle by (auto simp: count_pcs_zero)
  have "callback_inv ?S (mCallbacks s) False (s, pcs)"
    unfolding callback_inv_def using st nz assms(1) by simp
  from callback_inv_exec[OF this, of sched] assms(3)
  have "callback_inv ?S (mCallbacks s) False (s', pcs')" by simp
  then obtain new where new: "mCallbacks s' = mCallbacks s @ new"
    "set new \<subseteq> client_call_of ` ?S"
    "length new + count_pcs notifying pcs' = (if mCallbackSent s' then 1 else 0)"
    by (auto simp: callback_inv_def)
  then have a: "\<exists>new. mCallbacks s' = mCallbacks s @ new \<and> length new \<le> 1
              \<and> set new \<subseteq> client_call_of ` ?S"
    by (intro exI[of _ new]) (simp split: if_splits)
  have b: "\<exists>status. SendCallback_entry status \<in> set pcs
                      \<and> mCallbacks s' = mCallbacks s @ [client_call_of status]"
    if nc: "\<not> mCancelled s" and no: "Cancel_entry \<notin> set pcs" and ne: "pcs \<noteq> []"
      and q: "\<forall>p\<in>set pcs'. returned p"
  proof -
    have "waiting p" if "p \<in> set pcs" for p
    proof -
      from that assms(2) have "entry_point p" by blast
      moreover from that no have "p \<noteq> Cancel_entry" by blast
      ultimately show ?thesis by (cases p) simp_all
    qed
    with nc have "started_inv (s, pcs)" by (auto simp: started_inv_def)
    from started_inv_exec[OF this, of sched] assms(3)
    have si: "mCancelled s' \<or> (\<exists>p\<in>set pcs'. \<not> waiting p) \<longrightarrow> mCallbackSent s'"
      by (simp add: started_inv_def)
    from exec_length[of "(s, pcs)" sched] assms(3) ne have "pcs' \<noteq> []" by auto
    then obtain p where p: "p \<in> set pcs'" by (cases pcs') auto
    with q have "returned p" by simp
    then have "\<not> waiting p" by (cases p) simp_all
    with si p have sent: "mCallbackSent s'" by blast
    have "\<not> notifying x" if "x \<in> set pcs'" for x
      using q that by (cases x) auto
    then have "count_pcs notifying pcs' = 0" by (simp add: count_pcs_zero)
    with new(3) sent have "length new = 1" by simp
    then obtain c where c: "new = [c]" by (cases new) auto
    with new(2) obtain status where "status \<in> ?S" "c = client_call_of status" by auto
    with new(1) c show ?thesis by auto
  qed
  have c: "terminal_calls s2 = terminal_calls s @ [client_call_of status]"
    if "\<not> mCancelled s" "terminal_status ev = Some status" "run s (ev # evs) = Inr s2"
    using that(1) assms(1) that(2,3) by (rule run_first_terminal)
  have d: "terminal_calls s4 = terminal_calls s3"
    if "mCallbackSent s3" "run s3 evs = Inr s4"
    using that by (rule run_sent)
  have e: "\<exists>more. \<forall>p\<in>set (snd (exec more (s', pcs'))). returned p"
    if "\<not> mCancelled s" "mSampleWriter s \<noteq> None" "mSampleReader s \<noteq> None"
  proof -
    from stop_inv_exec[OF stop_inv_initial[OF that(2,3,1) assms(2)], of sched] assms(3)
    have "stop_inv (calls s) (length (mTrackTranscoders s)) (s', pcs')" by simp
    then show ?thesis by (rule can_complete)
  qed
  from a b c d e show ?thesis by blast
qed

theorem terminal_callback_once_witness:
  "\<not> mCallbackSent demo_started \<and> \<not> mCancelled demo_started
   \<and> list_all entry_point [SendCallback_entry AMEDIA_ERROR_UNKNOWN, SendCallback_entry AMEDIA_OK]
   \<and> exec [0, 1, 1, 0, 1, 1, 2, 2, 2, 2, 2, 2]
         (demo_started, [SendCallback_entry AMEDIA_ERROR_UNKNOWN, SendCallback_entry AMEDIA_OK])
       = (demo_cancelled\<lparr>mCallbackSent := True, mCallbacks := [ClientFinished],
                          asyncCancelThreads := 1\<rparr>,
          [SendCallback_return, SendCallback_return, Cancel_return AMEDIA_OK])
   \<and> list_all returned [SendCallback_return, SendCallback_return, Cancel_return AMEDIA_OK]
   \<and> (\<exists>status. mCallbacks (demo_cancelled\<lparr>mCallbackSent := True, mCallbacks := [ClientFinished],
                                             asyncCancelThreads := 1\<rparr>)
                  = mCallbacks demo_started @ [client_call_of status])
   \<and> (\<exists>s2. run demo_started
              [TrackError 0 AMEDIA_ERROR_UNKNOWN, CancelCall, WriterFinished AMEDIA_OK] = Inr s2
            \<and> terminal_calls s2 = [ClientError AMEDIA_ERROR_UNKNOWN])"
proof -
  let ?pcs = "[SendCallback_entry AMEDIA_ERROR_UNKNOWN, SendCallback_entry AMEDIA_OK]"
  let ?evs = "[CancelCall, WriterFinished AMEDIA_OK]"
  have a: "\<not> mCallbackSent demo_started" "\<not> mCancelled demo_started"
    "mSampleWriter demo_started \<noteq> None" "mSampleReader demo_started \<noteq> None"
    "terminal_calls demo_started = []"
    by (simp_all add: demo_started_eq demo_session_eq demo_tracks_eq terminal_calls_def)
  have e: "\<forall>p\<in>set ?pcs. entry_point p" "Cancel_entry \<notin> set ?pcs" "?pcs \<noteq> []"
    "\<forall>p\<in>set [SendCallback_return, SendCallback_return, Cancel_return AMEDIA_OK]. returned p"
    by simp_all
  from run_configured[OF a(3,4)] obtain s2
    where r: "run demo_started (TrackError 0 AMEDIA_ERROR_UNKNOWN # ?evs) = Inr s2" by blast
  have ts: "terminal_status (TrackError 0 AMEDIA_ERROR_UNKNOWN) = Some AMEDIA_ERROR_UNKNOWN"
    by simp
  note t = terminal_callback_once[OF a(1) e(1) demo_race,
      of "TrackError 0 AMEDIA_ERROR_UNKNOWN" AMEDIA_ERROR_UNKNOWN ?evs s2]
  from t a(2) e have w1: "\<exists>status. mCallbacks (demo_cancelled\<lparr>mCallbackSent := True,
                                     mCallbacks := [ClientFinished], asyncCancelThreads := 1\<rparr>)
                  = mCallbacks demo_started @ [client_call_of status]"
    by blast
  from t a(2) ts r have "terminal_calls s2 = terminal_calls demo_started
                           @ [client_call_of AMEDIA_ERROR_UNKNOWN]"
    by blast
  with a(5) have w2: "terminal_calls s2 = [ClientError AMEDIA_ERROR_UNKNOWN]"
    by (simp add: client_call_of_def)
  have l: "list_all entry_point ?pcs"
    "list_all returned [SendCallback_return, SendCallback_return, Cancel_return AMEDIA_OK]"
    by simp_all
  from a(1,2) l demo_race w1 r w2 show ?thesis by blast
qed

end
